theory Spec2Isabelle
  imports Complex_Main
begin

section \<open>Data model of \<^verbatim>\<open>server.py\<close>\<close>

text \<open>
  Exceptions are values of \<open>py_error\<close>; a function that can raise returns
  \<open>py_error + 'a\<close>, and a method of the detector returns the detector with it, as the
  calls before the exception have left it.
\<close>

datatype py_error = ValueError | TypeError | InvalidParameterError

text \<open>
  A parsed \<^verbatim>\<open>datetime\<close>: the two fields the feature extractor reads, whether the
  value carries a UTC offset (is \<^emph>\<open>aware\<close>) or not (is \<^emph>\<open>naive\<close>), and its position on
  the time line in seconds, which is what comparison and subtraction see between two
  values of the same kind. Python refuses to compare or subtract an aware and a naive
  value with \<^verbatim>\<open>TypeError\<close>.
\<close>

record datetime =
  dt_hour :: nat
  dt_weekday :: nat
  dt_aware :: bool
  dt_instant :: real

text \<open>
  What the program takes from outside the repository, and what depends on floating-point
  arithmetic, is a parameter \<open>L\<close> of every function that uses it:

    \<^item> \<open>fromisoformat\<close> is \<^verbatim>\<open>datetime.fromisoformat\<close> of the standard library, with
      \<open>None\<close> for its \<^verbatim>\<open>ValueError\<close>. Which strings it accepts depends on the Python
      version; nothing is assumed about it.
    \<^item> \<open>to_float\<close> is the rounding of a real number to a double: the result of one
      floating-point operation is \<open>to_float\<close> of the exact result.
    \<^item> \<open>np_mean\<close> is \<^verbatim>\<open>np.mean\<close> on a non-empty list of doubles, with the order of
      summation and the roundings of NumPy.
    \<^item> \<open>radius_neighbors\<close> is the neighbourhood query that \<^verbatim>\<open>DBSCAN.fit\<close> makes
      (\<^verbatim>\<open>NearestNeighbors.radius_neighbors\<close> with radius \<open>eps\<close> on the scaled matrix):
      for every row, the indices of the rows that the library finds within \<open>eps\<close>. The
      library computes distances in floating point, so it may decide differently from
      the exact distance for two points at a distance of \<open>eps\<close> or very near it, and
      differently in the two directions; the order of a neighbourhood is the library's.

  The ideal library, \<open>exact_library\<close> below, computes in exact real arithmetic.
\<close>

record library =
  fromisoformat :: "string \<Rightarrow> datetime option"
  to_float :: "real \<Rightarrow> real"
  np_mean :: "real list \<Rightarrow> real"
  radius_neighbors :: "real \<Rightarrow> real list list \<Rightarrow> nat list list"

text \<open>
  An attack, as \<^verbatim>\<open>generate_mock_attack\<close> builds it. Only the keys the detector
  reads are kept. \<^verbatim>\<open>source_lat\<close> and \<^verbatim>\<open>source_lng\<close> are read with
  \<^verbatim>\<open>attack.get(..., 0)\<close>, so they may be absent.
\<close>

record attack =
  attack_id :: string
  attack_type :: string
  source_country :: string
  target_country :: string
  source_lat :: "real option"
  source_lng :: "real option"
  intensity :: int
  timestamp :: string

section \<open>The event store (\<^verbatim>\<open>attack_history\<close>, \<^verbatim>\<open>MAX_HISTORY\<close>)\<close>

definition MAX_HISTORY :: nat where
  "MAX_HISTORY = 5000"

text \<open>
  The last three lines of \<^verbatim>\<open>generate_mock_attack\<close>:
  \<^verbatim>\<open>attack_history.append(attack)\<close>, then \<^verbatim>\<open>pop(0)\<close> when the length exceeds
  \<^verbatim>\<open>MAX_HISTORY\<close>.
\<close>

definition store_attack :: "attack list \<Rightarrow> attack \<Rightarrow> attack list" where
  "store_attack history a =
     (let h = history @ [a]
      in if length h > MAX_HISTORY then tl h else h)"

text \<open>The store after a sequence of appends, starting from the empty list of the module.\<close>

definition store_all :: "attack list \<Rightarrow> attack list" where
  "store_all evs = foldl store_attack [] evs"

section \<open>Feature extraction (\<^verbatim>\<open>create_attack_features\<close>)\<close>

definition country_codes :: "(string \<times> nat) list" where
  "country_codes =
     [(''United States'', 1), (''China'', 2), (''Russia'', 3), (''Germany'', 4),
      (''United Kingdom'', 5), (''France'', 6), (''Japan'', 7), (''Brazil'', 8),
      (''India'', 9), (''South Korea'', 10), (''Canada'', 11), (''Australia'', 12),
      (''Netherlands'', 13), (''Poland'', 14), (''Sweden'', 15)]"

definition country_to_code :: "string \<Rightarrow> nat" where
  "country_to_code country =
     (case map_of country_codes country of Some c \<Rightarrow> c | None \<Rightarrow> 0)"

definition type_codes :: "(string \<times> nat) list" where
  "type_codes =
     [(''DDoS'', 1), (''Botnet'', 2), (''Ransomware'', 3), (''Malware'', 4),
      (''Phishing'', 5), (''SQL Injection'', 6), (''XSS'', 7), (''Brute Force'', 8)]"

definition attack_type_to_code :: "string \<Rightarrow> nat" where
  "attack_type_to_code ty =
     (case map_of type_codes ty of Some c \<Rightarrow> c | None \<Rightarrow> 0)"

text \<open>\<^verbatim>\<open>attack['timestamp'].replace('Z', '+00:00')\<close>: every \<^verbatim>\<open>Z\<close> is replaced.\<close>

definition replace_Z :: "string \<Rightarrow> string" where
  "replace_Z s = concat (map (\<lambda>c. if c = CHR ''Z'' then ''+00:00'' else [c]) s)"

definition parse_timestamp :: "library \<Rightarrow> attack \<Rightarrow> py_error + datetime" where
  "parse_timestamp L a =
     (case fromisoformat L (replace_Z (timestamp a)) of
        None \<Rightarrow> Inl ValueError
      | Some t \<Rightarrow> Inr t)"

record features =
  hour :: nat
  day :: nat
  country_code :: nat
  attack_type_code :: nat
  intensity_feature :: int
  target_country_code :: nat
  lat :: real
  lng :: real

definition create_attack_features :: "library \<Rightarrow> attack \<Rightarrow> py_error + features" where
  "create_attack_features L a =
     (case parse_timestamp L a of
        Inl e \<Rightarrow> Inl e
      | Inr t \<Rightarrow>
          Inr \<lparr> hour = dt_hour t,
                day = dt_weekday t,
                country_code = country_to_code (source_country a),
                attack_type_code = attack_type_to_code (attack_type a),
                intensity_feature = intensity a,
                target_country_code = country_to_code (target_country a),
                lat = (case source_lat a of Some x \<Rightarrow> x | None \<Rightarrow> 0),
                lng = (case source_lng a of Some x \<Rightarrow> x | None \<Rightarrow> 0) \<rparr>)"

text \<open>The row of the feature matrix that \<^verbatim>\<open>detect_campaigns\<close> builds from the features.\<close>

definition feature_vector :: "features \<Rightarrow> real list" where
  "feature_vector f =
     [real (hour f), real (day f), real (country_code f), real (attack_type_code f),
      real_of_int (intensity_feature f), real (target_country_code f),
      lat f / 90, lng f / 180]"

section \<open>Attribution (\<^verbatim>\<open>_attribute_threat_actor\<close> and its scores)\<close>

definition get_signature_score :: "string list \<Rightarrow> real" where
  "get_signature_score attack_types =
     (let attack_set = set attack_types
      in if {''DDoS'', ''Malware''} \<subseteq> attack_set then 0.95
         else if ''Ransomware'' \<in> set attack_types \<and> ''Malware'' \<in> set attack_types then 0.90
         else if attack_set = {''DDoS''} then 0.80
         else if attack_set = {''Brute Force''} then 0.60
         else 0.50)"

definition geo_profiles :: "(string \<times> real) list" where
  "geo_profiles =
     [(''Russia'', 0.92), (''China'', 0.90), (''Iran'', 0.88),
      (''North Korea'', 0.91), (''United States'', 0.75),
      (''Brazil'', 0.80), (''Romania'', 0.82)]"

definition get_geographic_score :: "string \<Rightarrow> real" where
  "get_geographic_score country =
     (case map_of geo_profiles country of Some s \<Rightarrow> s | None \<Rightarrow> 0.40)"

definition get_timing_score :: "real \<Rightarrow> nat \<Rightarrow> real" where
  "get_timing_score interval num_attacks =
     (if num_attacks < 3 then 0.50
      else if interval < 30 then 0.95
      else if interval < 60 then 0.88
      else if interval < 120 then 0.80
      else if interval < 720 then 0.65
      else 0.45)"

definition get_operational_score :: "string list \<Rightarrow> nat \<Rightarrow> real" where
  "get_operational_score attack_types num_attacks =
     (let score = 0.50;
          score = (if card (set attack_types) \<ge> 3 then score + 0.25
                   else if card (set attack_types) \<ge> 2 then score + 0.15
                   else score);
          score = (if num_attacks > 15 then score + 0.20
                   else if num_attacks > 8 then score + 0.12
                   else score)
      in min 1.0 score)"

text \<open>
  Python's \<^verbatim>\<open>round(x, n)\<close>: to the nearest multiple of \<open>10\<^sup>-\<^sup>n\<close>, a tie going to
  the even neighbour. The scores of the attribution are short decimals and are combined
  in exact arithmetic.
\<close>

definition round_half_even :: "real \<Rightarrow> int" where
  "round_half_even x =
     (let f = \<lfloor>x\<rfloor>; d = x - of_int f
      in if d < 1/2 then f
         else if d > 1/2 then f + 1
         else if even f then f else f + 1)"

definition py_round :: "real \<Rightarrow> nat \<Rightarrow> real" where
  "py_round x n = of_int (round_half_even (x * 10 ^ n)) / 10 ^ n"

text \<open>The local \<^verbatim>\<open>weighted_confidence\<close> of \<^verbatim>\<open>_attribute_threat_actor\<close>.\<close>

definition weighted_confidence :: "real \<Rightarrow> real \<Rightarrow> real \<Rightarrow> real \<Rightarrow> real" where
  "weighted_confidence sig_score geo_score timing_score op_score =
     sig_score * 0.40 + geo_score * 0.25 + timing_score * 0.20 + op_score * 0.15"

text \<open>
  The decision logic: the pair of the locals \<^verbatim>\<open>actor\<close> and \<^verbatim>\<open>confidence\<close> that the
  \<^verbatim>\<open>if\<close>/\<^verbatim>\<open>elif\<close> chain assigns.
\<close>

definition decision :: "string list \<Rightarrow> real \<Rightarrow> real \<Rightarrow> real \<Rightarrow> real \<Rightarrow> string \<times> real" where
  "decision attack_types sig_score geo_score timing_score op_score =
     (if sig_score \<ge> 0.90 \<and> geo_score \<ge> 0.88 \<and> timing_score \<ge> 0.75
        then (''State-Sponsored APT'', 0.92)
      else if ''Ransomware'' \<in> set attack_types \<and> sig_score \<ge> 0.85 \<and> op_score \<ge> 0.65
        then (''Criminal Organization'', 0.89)
      else if set attack_types = {''DDoS''} \<and> timing_score \<ge> 0.70
        then (''Hacktivist Collective'', 0.85)
      else if sig_score \<le> 0.65 \<and> op_score \<le> 0.50
        then (''Script Kiddies'', 0.78)
      else (''Unknown Threat'', 0.65))"

record attribution =
  actor :: string
  returned_confidence :: real
  returned_sophistication :: string

text \<open>
  The returned dictionary takes \<^verbatim>\<open>actor\<close> from the decision logic and
  \<^verbatim>\<open>"confidence"\<close> from \<^verbatim>\<open>round(min(0.97, weighted_confidence), 4)\<close>; the local
  \<^verbatim>\<open>confidence\<close> of the decision logic is not read again.
\<close>

definition attribute_threat_actor ::
  "string list \<Rightarrow> string \<Rightarrow> real \<Rightarrow> nat \<Rightarrow> attribution" where
  "attribute_threat_actor attack_types country interval num_attacks =
     (let sig_score = get_signature_score attack_types;
          geo_score = get_geographic_score country;
          timing_score = get_timing_score interval num_attacks;
          op_score = get_operational_score attack_types num_attacks;
          weighted = weighted_confidence sig_score geo_score timing_score op_score;
          (actor_local, confidence_local) =
             decision attack_types sig_score geo_score timing_score op_score
      in \<lparr> actor = actor_local,
           returned_confidence = py_round (min 0.97 weighted) 4,
           returned_sophistication =
             (if sig_score \<ge> 0.85 then ''High''
              else if sig_score \<ge> 0.60 then ''Medium'' else ''Low'') \<rparr>)"

section \<open>Campaigns and the registry (\<^verbatim>\<open>_create_campaign\<close>)\<close>

text \<open>
  The campaign dictionary. Three of its keys are floating-point values rounded to two
  decimals for display (\<^verbatim>\<open>duration_minutes\<close>, \<^verbatim>\<open>avg_interval_minutes\<close> and
  \<^verbatim>\<open>severity_score\<close>, the result of \<^verbatim>\<open>_calculate_severity\<close>); computing them cannot
  raise once \<^verbatim>\<open>min(timestamps)\<close> has returned, nothing in the program reads them
  again, and they are not part of the record.
\<close>

record campaign =
  campaign_id :: string
  start_time :: datetime
  end_time :: datetime
  num_attacks :: nat
  attack_ids :: "string list"
  primary_source_country :: string
  attack_types :: "(string \<times> nat) list"
  signature :: "string list"
  attributed_actor :: string
  confidence :: real
  sophistication :: string

text \<open>
  A Python dictionary keeps its keys in insertion order, and \<^verbatim>\<open>_create_campaign\<close>
  depends on that order (\<^verbatim>\<open>max(countries, key=...)\<close>, \<^verbatim>\<open>list(attack_types.keys())\<close>),
  so dictionaries are association lists: a store to a present key updates in place, a
  store to a new key appends.
\<close>

fun dict_set :: "('k \<times> 'v) list \<Rightarrow> 'k \<Rightarrow> 'v \<Rightarrow> ('k \<times> 'v) list" where
  "dict_set [] k v = [(k, v)]"
| "dict_set ((k', v') # kvs) k v =
     (if k' = k then (k', v) # kvs else (k', v') # dict_set kvs k v)"

text \<open>\<^verbatim>\<open>d[k] += 1\<close> on a \<^verbatim>\<open>defaultdict(int)\<close>.\<close>

definition bump :: "(string \<times> nat) list \<Rightarrow> string \<Rightarrow> (string \<times> nat) list" where
  "bump d k = dict_set d k ((case map_of d k of Some c \<Rightarrow> c | None \<Rightarrow> 0) + 1)"

definition count_keys :: "string list \<Rightarrow> (string \<times> nat) list" where
  "count_keys ks = foldl bump [] ks"

text \<open>\<^verbatim>\<open>max(d, key=d.get)\<close>: the first key, in insertion order, with the largest count.\<close>

fun max_count :: "string \<times> nat \<Rightarrow> (string \<times> nat) list \<Rightarrow> string \<times> nat" where
  "max_count best [] = best"
| "max_count best (kv # kvs) = max_count (if snd kv > snd best then kv else best) kvs"

text \<open>\<^verbatim>\<open>min(timestamps)\<close> and \<^verbatim>\<open>max(timestamps)\<close>: the first extremal element.\<close>

fun earliest :: "datetime \<Rightarrow> datetime list \<Rightarrow> datetime" where
  "earliest best [] = best"
| "earliest best (t # ts) = earliest (if dt_instant t < dt_instant best then t else best) ts"

fun latest :: "datetime \<Rightarrow> datetime list \<Rightarrow> datetime" where
  "latest best [] = best"
| "latest best (t # ts) = latest (if dt_instant t > dt_instant best then t else best) ts"

text \<open>The arithmetic mean of a non-empty list, in exact arithmetic.\<close>

definition mean :: "real list \<Rightarrow> real" where
  "mean xs = sum_list xs / real (length xs)"

text \<open>
  The loop \<^verbatim>\<open>for i in range(1, len(timestamps))\<close>: the differences, in minutes, between
  each timestamp and the one before it in the list. \<^verbatim>\<open>total_seconds()\<close> is one
  floating-point division of an exact count of microseconds, and the division by 60 is
  another. The timestamps are of the same kind here: \<^verbatim>\<open>min(timestamps)\<close> has returned.
\<close>

fun time_diffs :: "library \<Rightarrow> datetime list \<Rightarrow> real list" where
  "time_diffs L (a # b # ts) =
     to_float L (to_float L (dt_instant b - dt_instant a) / 60) # time_diffs L (b # ts)"
| "time_diffs L [a] = []"
| "time_diffs L [] = []"

text \<open>\<^verbatim>\<open>np.mean(time_diffs) if time_diffs else 0\<close>.\<close>

definition avg_interval :: "library \<Rightarrow> datetime list \<Rightarrow> real" where
  "avg_interval L timestamps =
     (let diffs = time_diffs L timestamps in if diffs = [] then 0 else np_mean L diffs)"

text \<open>
  Whether \<^verbatim>\<open>min\<close> and \<^verbatim>\<open>max\<close> can compare the elements of a list of timestamps: every
  element is compared with an earlier one, so they can when all are aware or all naive.
\<close>

definition same_awareness :: "datetime list \<Rightarrow> bool" where
  "same_awareness ts = list_all (\<lambda>t. dt_aware t = dt_aware (hd ts)) ts"

text \<open>
  \<^verbatim>\<open>f"CAMPAIGN_{self.next_campaign_id:04d}"\<close>: the decimal digits of the counter,
  padded on the left with zeros up to four characters and never cut.
\<close>

fun decimal :: "nat \<Rightarrow> string" where
  "decimal n =
     (if n < 10 then [''0123456789'' ! n]
      else decimal (n div 10) @ [''0123456789'' ! (n mod 10)])"

declare decimal.simps [simp del]

definition format_04d :: "nat \<Rightarrow> string" where
  "format_04d n = (let s = decimal n in replicate (4 - length s) CHR ''0'' @ s)"

definition campaign_id_of :: "nat \<Rightarrow> string" where
  "campaign_id_of n = ''CAMPAIGN_'' @ format_04d n"

text \<open>
  The state of a \<^verbatim>\<open>CampaignDetector\<close>. The counter starts at 1 and is only ever
  incremented, so it is a natural number.
\<close>

record detector =
  campaigns :: "(string \<times> campaign) list"
  attack_to_campaign :: "(string \<times> string) list"
  next_campaign_id :: nat

definition new_detector :: detector where
  "new_detector = \<lparr> campaigns = [], attack_to_campaign = [], next_campaign_id = 1 \<rparr>"

text \<open>The list comprehension that parses every timestamp; the first failure raises.\<close>

fun parse_timestamps :: "library \<Rightarrow> attack list \<Rightarrow> py_error + datetime list" where
  "parse_timestamps L [] = Inr []"
| "parse_timestamps L (a # as) =
     (case parse_timestamp L a of
        Inl e \<Rightarrow> Inl e
      | Inr t \<Rightarrow> (case parse_timestamps L as of Inl e \<Rightarrow> Inl e | Inr ts \<Rightarrow> Inr (t # ts)))"

text \<open>
  \<^verbatim>\<open>_create_campaign\<close>. \<^verbatim>\<open>min(timestamps)\<close> raises \<^verbatim>\<open>ValueError\<close> on an empty
  list and \<^verbatim>\<open>TypeError\<close> on a list that mixes aware and naive values; both happen
  before the detector is touched. The times are kept as parsed values (the source stores
  their \<^verbatim>\<open>isoformat()\<close> strings).
\<close>

definition create_campaign ::
  "library \<Rightarrow> detector \<Rightarrow> attack list \<Rightarrow> string list \<Rightarrow> py_error + campaign \<times> detector" where
  "create_campaign L self attacks ids =
     (case parse_timestamps L attacks of
        Inl e \<Rightarrow> Inl e
      | Inr [] \<Rightarrow> Inl ValueError
      | Inr (t # ts) \<Rightarrow>
          if \<not> same_awareness (t # ts) then Inl TypeError
          else
          (let timestamps = t # ts;
               start_t = earliest t ts;
               end_t = latest t ts;
               countries = count_keys (map source_country attacks);
               primary_country = fst (max_count (hd countries) (tl countries));
               types = count_keys (map attack_type attacks);
               sig = map fst types;
               interval = avg_interval L timestamps;
               attribution = attribute_threat_actor sig primary_country interval (length attacks);
               cid = campaign_id_of (next_campaign_id self);
               c = \<lparr> campaign_id = cid,
                     start_time = start_t,
                     end_time = end_t,
                     num_attacks = length attacks,
                     attack_ids = ids,
                     primary_source_country = primary_country,
                     attack_types = types,
                     signature = sig,
                     attributed_actor = actor attribution,
                     confidence = returned_confidence attribution,
                     sophistication = returned_sophistication attribution \<rparr>
           in Inr (c, self \<lparr> campaigns := dict_set (campaigns self) cid c,
                              next_campaign_id := next_campaign_id self + 1 \<rparr>)))"

section \<open>The library calls of \<^verbatim>\<open>detect_campaigns\<close>\<close>

text \<open>
  \<^verbatim>\<open>StandardScaler().fit_transform(X)\<close> of scikit-learn: every column is centred on
  its mean and divided by its population standard deviation; a column of zero variance
  is divided by 1. An empty matrix is refused with \<^verbatim>\<open>ValueError\<close>. The scaler is
  written in exact arithmetic; its result only goes to the neighbourhood query of the
  library, of which nothing is assumed.
\<close>

definition column :: "real list list \<Rightarrow> nat \<Rightarrow> real list" where
  "column X j = map (\<lambda>row. row ! j) X"

definition col_mean :: "real list list \<Rightarrow> nat \<Rightarrow> real" where
  "col_mean X j = mean (column X j)"

definition col_var :: "real list list \<Rightarrow> nat \<Rightarrow> real" where
  "col_var X j = mean (map (\<lambda>x. (x - col_mean X j)\<^sup>2) (column X j))"

definition col_scale :: "real list list \<Rightarrow> nat \<Rightarrow> real" where
  "col_scale X j = (if col_var X j = 0 then 1 else sqrt (col_var X j))"

definition scale_row :: "real list list \<Rightarrow> real list \<Rightarrow> real list" where
  "scale_row X row = map (\<lambda>j. (row ! j - col_mean X j) / col_scale X j) [0..<length row]"

definition fit_transform :: "real list list \<Rightarrow> py_error + real list list" where
  "fit_transform X = (if X = [] then Inl ValueError else Inr (map (scale_row X) X))"

text \<open>
  The neighbourhoods in exact arithmetic: for every row, the indices, ascending, of the
  rows at Euclidean distance at most \<open>eps\<close>, itself included. This is what the
  neighbourhood query of the library approximates.
\<close>

definition euclidean :: "real list \<Rightarrow> real list \<Rightarrow> real" where
  "euclidean a b = sqrt (sum_list (map (\<lambda>(x, y). (x - y)\<^sup>2) (zip a b)))"

definition exact_radius_neighbors :: "real \<Rightarrow> real list list \<Rightarrow> nat list list" where
  "exact_radius_neighbors eps X =
     map (\<lambda>a. filter (\<lambda>j. euclidean a (X ! j) \<le> eps) [0..<length X]) X"

definition exact_library :: "(string \<Rightarrow> datetime option) \<Rightarrow> library" where
  "exact_library parser =
     \<lparr> fromisoformat = parser, to_float = (\<lambda>x. x), np_mean = mean,
       radius_neighbors = exact_radius_neighbors \<rparr>"

text \<open>
  \<^verbatim>\<open>DBSCAN(eps, min_samples).fit_predict(X)\<close> of scikit-learn. The neighbourhoods
  are those of the library; a point is a core sample when its neighbourhood has at least
  \<open>min_samples\<close> points. \<open>dbscan_inner\<close> is the library's labelling loop: every
  point starts with label \<open>-1\<close>; the points are scanned in index order, and each
  unlabelled core sample starts a depth-first search that gives the next label to every
  unlabelled point it reaches, going on only through core samples. The parameter
  validation of the library (version 1.2 and later) refuses a \<open>min_samples\<close> below 1
  with \<^verbatim>\<open>InvalidParameterError\<close>.
\<close>

text \<open>
  One pass of the body of the search loop at point \<open>i\<close>: an unlabelled point takes the
  label and, when it is a core sample, pushes its unlabelled neighbours. The head of
  the list is the top of the stack.
\<close>

definition visit ::
  "bool list \<Rightarrow> nat list list \<Rightarrow> nat \<Rightarrow> nat \<Rightarrow> nat list \<Rightarrow> int list \<Rightarrow> int list \<times> nat list" where
  "visit is_core neighborhoods label_num i stack labels =
     (if i < length labels \<and> labels ! i = -1 then
        (let labels' = labels[i := int label_num]
         in (labels',
             if is_core ! i
             then rev (filter (\<lambda>v. labels' ! v = -1) (neighborhoods ! i)) @ stack
             else stack))
      else (labels, stack))"

lemma count_unlabelled_decreases:
  "i < length labels \<Longrightarrow> labels ! i = -1 \<Longrightarrow>
   count_list (labels[i := int l]) (-1) < count_list labels (-1)"
proof (induction labels arbitrary: i)
  case Nil
  then show ?case by simp
next
  case (Cons x xs)
  then show ?case by (cases i) auto
qed

function dfs ::
  "bool list \<Rightarrow> nat list list \<Rightarrow> nat \<Rightarrow> nat \<Rightarrow> nat list \<Rightarrow> int list \<Rightarrow> int list" where
  "dfs is_core neighborhoods label_num i stack labels =
     (case visit is_core neighborhoods label_num i stack labels of
        (labels', []) \<Rightarrow> labels'
      | (labels', v # rest) \<Rightarrow> dfs is_core neighborhoods label_num v rest labels')"
  by pat_completeness auto
termination
proof (relation "measures [\<lambda>(c, n, l, i, st, lab). count_list lab (-1),
                           \<lambda>(c, n, l, i, st, lab). length st]", goal_cases)
  case 1
  show ?case by simp
next
  case (2 is_core neighborhoods label_num i stack labels x1 x2 v rest)
  have eq: "visit is_core neighborhoods label_num i stack labels = (x1, v # rest)"
    using 2 by simp
  show ?case
  proof (cases "i < length labels \<and> labels ! i = -1")
    case True
    then have "x1 = labels[i := int label_num]"
      using eq by (simp add: visit_def Let_def)
    then show ?thesis
      using True count_unlabelled_decreases [of i labels label_num] by simp
  next
    case False
    have "visit is_core neighborhoods label_num i stack labels = (labels, stack)"
      unfolding visit_def by (rule if_not_P [OF False])
    then have "x1 = labels" "stack = v # rest"
      using eq by simp_all
    then show ?thesis
      by simp
  qed
qed

declare dfs.simps [simp del]

fun dbscan_loop ::
  "bool list \<Rightarrow> nat list list \<Rightarrow> nat list \<Rightarrow> nat \<Rightarrow> int list \<Rightarrow> int list" where
  "dbscan_loop is_core neighborhoods [] label_num labels = labels"
| "dbscan_loop is_core neighborhoods (i # rest) label_num labels =
     (if labels ! i \<noteq> -1 \<or> \<not> is_core ! i
      then dbscan_loop is_core neighborhoods rest label_num labels
      else dbscan_loop is_core neighborhoods rest (label_num + 1)
             (dfs is_core neighborhoods label_num i [] labels))"

definition dbscan_inner :: "bool list \<Rightarrow> nat list list \<Rightarrow> int list \<Rightarrow> int list" where
  "dbscan_inner is_core neighborhoods labels =
     dbscan_loop is_core neighborhoods [0..<length labels] 0 labels"

definition fit_predict ::
  "library \<Rightarrow> real \<Rightarrow> int \<Rightarrow> real list list \<Rightarrow> py_error + int list" where
  "fit_predict L eps min_samples X =
     (if min_samples < 1 then Inl InvalidParameterError
      else
        (let neighborhoods = radius_neighbors L eps X;
             core_samples = map (\<lambda>nb. int (length nb) \<ge> min_samples) neighborhoods
         in Inr (dbscan_inner core_samples neighborhoods (replicate (length X) (-1)))))"

section \<open>\<^verbatim>\<open>detect_campaigns\<close> and \<^verbatim>\<open>GET /api/campaigns\<close>\<close>

text \<open>The loop that builds \<^verbatim>\<open>features_list\<close>; the first unparsable timestamp raises.\<close>

fun extract_features :: "library \<Rightarrow> attack list \<Rightarrow> py_error + real list list" where
  "extract_features L [] = Inr []"
| "extract_features L (a # as) =
     (case create_attack_features L a of
        Inl e \<Rightarrow> Inl e
      | Inr f \<Rightarrow>
          (case extract_features L as of
             Inl e \<Rightarrow> Inl e
           | Inr rows \<Rightarrow> Inr (feature_vector f # rows)))"

text \<open>
  \<^verbatim>\<open>for cluster_id in set(labels)\<close>: the distinct labels, taken here in ascending
  order. The order decides which cluster gets which campaign id and the order of the
  returned list, nothing else.
\<close>

definition cluster_ids :: "int list \<Rightarrow> int list" where
  "cluster_ids labels = sort (remdups labels)"

text \<open>\<^verbatim>\<open>np.where(labels == cluster_id)[0]\<close>: the indices that carry the label, ascending.\<close>

definition indices_where :: "int list \<Rightarrow> int \<Rightarrow> nat list" where
  "indices_where labels c = filter (\<lambda>i. labels ! i = c) [0..<length labels]"

text \<open>
  The loop over the clusters. An exception leaves the detector as the iterations
  before it have made it.
\<close>

fun form_campaigns ::
  "library \<Rightarrow> attack list \<Rightarrow> string list \<Rightarrow> int list \<Rightarrow> int list \<Rightarrow> detector
     \<Rightarrow> (py_error + campaign list) \<times> detector" where
  "form_campaigns L history ids labels [] self = (Inr [], self)"
| "form_campaigns L history ids labels (cluster_id # rest) self =
     (if cluster_id = -1 then form_campaigns L history ids labels rest self
      else
        (let cluster_indices = indices_where labels cluster_id;
             cluster_attacks = map (\<lambda>i. history ! i) cluster_indices;
             cluster_attack_ids = map (\<lambda>i. ids ! i) cluster_indices
         in case create_campaign L self cluster_attacks cluster_attack_ids of
              Inl e \<Rightarrow> (Inl e, self)
            | Inr (c, self') \<Rightarrow>
                (let self'' = self' \<lparr> attack_to_campaign :=
                       foldl (\<lambda>d a. dict_set d a (campaign_id c))
                         (attack_to_campaign self') cluster_attack_ids \<rparr>
                 in case form_campaigns L history ids labels rest self'' of
                      (Inl e, s) \<Rightarrow> (Inl e, s)
                    | (Inr cs, s) \<Rightarrow> (Inr (c # cs), s))))"

definition detect_campaigns ::
  "library \<Rightarrow> detector \<Rightarrow> attack list \<Rightarrow> int \<Rightarrow> (py_error + campaign list) \<times> detector" where
  "detect_campaigns L self history min_attacks_per_campaign =
     (if int (length history) < min_attacks_per_campaign then (Inr [], self)
      else
        (case extract_features L history of
           Inl e \<Rightarrow> (Inl e, self)
         | Inr X \<Rightarrow>
             (case fit_transform X of
                Inl e \<Rightarrow> (Inl e, self)
              | Inr X_scaled \<Rightarrow>
                  (case fit_predict L 0.5 min_attacks_per_campaign X_scaled of
                     Inl e \<Rightarrow> (Inl e, self)
                   | Inr labels \<Rightarrow>
                       form_campaigns L history (map attack_id history) labels
                         (cluster_ids labels) self))))"

text \<open>
  The two module globals the endpoint reads, and its two response shapes:
  \<^verbatim>\<open>{"campaigns": [], "message": ...}\<close> and
  \<^verbatim>\<open>{"campaigns": ..., "total_detected": ..., "total_attacks_analyzed": ...}\<close>.
\<close>

record server =
  attack_history :: "attack list"
  campaign_detector :: detector

datatype campaigns_response =
    NeedMore "campaign list" string
  | Detected "campaign list" nat nat

definition get_campaigns ::
  "library \<Rightarrow> server \<Rightarrow> (py_error + campaigns_response) \<times> server" where
  "get_campaigns L s =
     (if length (attack_history s) < 50
      then (Inr (NeedMore []
                  (''Need '' @ decimal (50 - length (attack_history s))
                     @ '' more attacks to detect campaigns'')), s)
      else
        (case detect_campaigns L (campaign_detector s) (attack_history s) 3 of
           (Inl e, d) \<Rightarrow> (Inl e, s \<lparr> campaign_detector := d \<rparr>)
         | (Inr cs, d) \<Rightarrow>
             (Inr (Detected cs (length cs) (length (attack_history s))),
              s \<lparr> campaign_detector := d \<rparr>)))"

section \<open>Sequences of detection runs and reading an id back\<close>

text \<open>
  One detector through a sequence of calls of \<^verbatim>\<open>detect_campaigns\<close>, each with its
  batch and its \<open>min_attacks_per_campaign\<close>; a call that raises leaves the detector as
  it was at the exception.
\<close>

fun run_detections :: "library \<Rightarrow> detector \<Rightarrow> (attack list \<times> int) list \<Rightarrow> detector" where
  "run_detections L self [] = self"
| "run_detections L self ((history, m) # runs) =
     run_detections L (snd (detect_campaigns L self history m)) runs"

text \<open>The number that a string of decimal digits denotes, leading zeros allowed.\<close>

definition digit_value :: "char \<Rightarrow> nat" where
  "digit_value c = length (takeWhile (\<lambda>d. d \<noteq> c) ''0123456789'')"

definition undecimal :: "string \<Rightarrow> nat" where
  "undecimal s = foldl (\<lambda>n c. 10 * n + digit_value c) 0 s"

text \<open>
  What holds of the registry between two calls: its keys, in insertion order, and the ids
  of the campaigns stored under them are the renderings of 1, 2, ... up to the counter.
\<close>

definition registry_ok :: "detector \<Rightarrow> bool" where
  "registry_ok d \<longleftrightarrow>
     1 \<le> next_campaign_id d
     \<and> map fst (campaigns d) = map campaign_id_of [1..<next_campaign_id d]
     \<and> map (\<lambda>kv. campaign_id (snd kv)) (campaigns d) = map campaign_id_of [1..<next_campaign_id d]"

section \<open>Invariants of the labelling loop\<close>

text \<open>
  What the exact neighbourhoods of \<open>n\<close> points always are, and what the neighbourhoods
  of the library are unless two points lie at a distance so near the radius that
  floating point decides differently in the two directions: \<open>n\<close> lists without
  repetitions, within range, each holding its own point, and symmetric.
\<close>

definition neighborhoods_ok :: "nat list list \<Rightarrow> nat \<Rightarrow> bool" where
  "neighborhoods_ok N n \<longleftrightarrow>
     length N = n \<and>
     (\<forall>i<n. distinct (N ! i) \<and> set (N ! i) \<subseteq> {..<n} \<and> i \<in> set (N ! i)
            \<and> (\<forall>j \<in> set (N ! i). i \<in> set (N ! j)))"

text \<open>
  What the labelling loop may assume of its input: \<open>n\<close> neighbourhoods without
  repetitions, within range, each holding its own point, symmetric, and a core flag that
  says the neighbourhood has at least \<open>m\<close> points.
\<close>

definition graph_ok :: "int \<Rightarrow> bool list \<Rightarrow> nat list list \<Rightarrow> nat \<Rightarrow> bool" where
  "graph_ok m C N n \<longleftrightarrow>
     length C = n \<and> length N = n \<and>
     (\<forall>i<n. distinct (N ! i) \<and> set (N ! i) \<subseteq> {..<n} \<and> i \<in> set (N ! i)
            \<and> (C ! i \<longleftrightarrow> m \<le> int (length (N ! i)))
            \<and> (\<forall>j \<in> set (N ! i). i \<in> set (N ! j)))"

text \<open>
  Neighbourhoods in which every point is a neighbour of every point, in any order.
\<close>

definition complete_neighborhoods :: "nat list list \<Rightarrow> nat \<Rightarrow> bool" where
  "complete_neighborhoods N n \<longleftrightarrow> length N = n \<and> (\<forall>i<n. set (N ! i) = {..<n})"

text \<open>
  What holds of the labels between two searches: every neighbour of a labelled core
  sample is labelled; every labelled point that is not a core sample has a labelled core
  sample among its neighbours; every label in use is carried by at least \<open>m\<close> points.
\<close>

definition labels_ok :: "int \<Rightarrow> bool list \<Rightarrow> nat list list \<Rightarrow> int list \<Rightarrow> bool" where
  "labels_ok m C N lab \<longleftrightarrow>
     (\<forall>u<length lab. C ! u \<longrightarrow> lab ! u \<noteq> -1 \<longrightarrow> (\<forall>w \<in> set (N ! u). lab ! w \<noteq> -1)) \<and>
     (\<forall>b<length lab. lab ! b \<noteq> -1 \<longrightarrow> \<not> C ! b \<longrightarrow> (\<exists>q \<in> set (N ! b). C ! q \<and> lab ! q \<noteq> -1)) \<and>
     (\<forall>c. c \<noteq> -1 \<longrightarrow> c \<in> set lab \<longrightarrow> m \<le> int (length (indices_where lab c)))"

text \<open>
  The points that a search of the labelling loop labels: the unlabelled points among the
  start points \<open>S\<close>, and the unlabelled neighbours of the core samples already found.
\<close>

inductive_set reach :: "bool list \<Rightarrow> nat list list \<Rightarrow> int list \<Rightarrow> nat set \<Rightarrow> nat set"
  for C :: "bool list" and N :: "nat list list" and lab :: "int list" and S :: "nat set" where
  start: "s \<in> S \<Longrightarrow> s < length lab \<Longrightarrow> lab ! s = -1 \<Longrightarrow> s \<in> reach C N lab S"
| step: "q \<in> reach C N lab S \<Longrightarrow> C ! q \<Longrightarrow> w \<in> set (N ! q) \<Longrightarrow> w < length lab \<Longrightarrow>
         lab ! w = -1 \<Longrightarrow> w \<in> reach C N lab S"

text \<open>
  Two answers of the neighbourhood query that agree up to the order within each
  neighbourhood: the same points, as many entries.
\<close>

definition same_neighbors :: "nat list list \<Rightarrow> nat list list \<Rightarrow> nat \<Rightarrow> bool" where
  "same_neighbors N N' n \<longleftrightarrow>
     length N = n \<and> length N' = n \<and>
     (\<forall>i<n. set (N ! i) = set (N' ! i) \<and> length (N ! i) = length (N' ! i))"

section \<open>Distances after scaling, without square roots\<close>

text \<open>
  The square of the scale of a column and the squared Euclidean distance of two scaled
  rows, as rational expressions of the unscaled matrix. They are proved equal to what
  \<open>fit_transform\<close> and \<open>euclidean\<close> compute, and make neighbourhoods computable.
\<close>

definition col_scale_sq :: "real list list \<Rightarrow> nat \<Rightarrow> real" where
  "col_scale_sq X j = (if col_var X j = 0 then 1 else col_var X j)"

definition scaled_sq_dist :: "real list list \<Rightarrow> real list \<Rightarrow> real list \<Rightarrow> real" where
  "scaled_sq_dist X a b =
     sum_list (map (\<lambda>j. (a ! j - b ! j)\<^sup>2 / col_scale_sq X j) [0..<length a])"

section \<open>Example data\<close>

text \<open>
  The parser on a few timestamps of two Mondays (weekday 0), 2024-01-01 and 2024-01-08,
  with their POSIX seconds; every other string is refused. The last entry has no UTC
  offset: \<^verbatim>\<open>datetime.fromisoformat\<close> accepts it and returns a naive value.
\<close>

definition sample_fromisoformat :: "string \<Rightarrow> datetime option" where
  "sample_fromisoformat s =
     map_of
       [(''2024-01-01T00:00:00+00:00'', \<lparr> dt_hour = 0, dt_weekday = 0, dt_aware = True, dt_instant = 1704067200 \<rparr>),
        (''2024-01-01T00:10:00+00:00'', \<lparr> dt_hour = 0, dt_weekday = 0, dt_aware = True, dt_instant = 1704067800 \<rparr>),
        (''2024-01-01T00:20:00+00:00'', \<lparr> dt_hour = 0, dt_weekday = 0, dt_aware = True, dt_instant = 1704068400 \<rparr>),
        (''2024-01-01T00:30:00+00:00'', \<lparr> dt_hour = 0, dt_weekday = 0, dt_aware = True, dt_instant = 1704069000 \<rparr>),
        (''2024-01-01T00:40:00+00:00'', \<lparr> dt_hour = 0, dt_weekday = 0, dt_aware = True, dt_instant = 1704069600 \<rparr>),
        (''2024-01-08T00:00:00+00:00'', \<lparr> dt_hour = 0, dt_weekday = 0, dt_aware = True, dt_instant = 1704672000 \<rparr>),
        (''2024-01-01T00:00:00'', \<lparr> dt_hour = 0, dt_weekday = 0, dt_aware = False, dt_instant = 1704067200 \<rparr>)] s"

definition sample_library :: library where
  "sample_library = exact_library sample_fromisoformat"

text \<open>
  A library that differs from \<open>sample_library\<close> in the order of every neighbourhood.
\<close>

definition reversed_library :: library where
  "reversed_library =
     sample_library \<lparr> radius_neighbors := \<lambda>eps X. map rev (exact_radius_neighbors eps X) \<rparr>"

definition sample_attack_at :: "string \<Rightarrow> int \<Rightarrow> string \<Rightarrow> attack" where
  "sample_attack_at name n ts =
     \<lparr> attack_id = name, attack_type = ''DDoS'', source_country = ''Russia'',
       target_country = ''Germany'', source_lat = Some 45, source_lng = Some 90,
       intensity = n, timestamp = ts \<rparr>"

definition sample_attack :: "string \<Rightarrow> int \<Rightarrow> attack" where
  "sample_attack name n = sample_attack_at name n ''2024-01-01T00:00:00Z''"

text \<open>
  Nine attacks that differ in intensity only. With \<open>min_samples = 4\<close> the points of
  intensity 4 and 6 are core samples, and the point of intensity 5 between them is not.
\<close>

definition border_batch :: "attack list" where
  "border_batch =
     [sample_attack ''a0'' 4, sample_attack ''a1'' 3, sample_attack ''a2'' 3,
      sample_attack ''a3'' 5, sample_attack ''a4'' 6, sample_attack ''a5'' 7,
      sample_attack ''a6'' 7, sample_attack ''a7'' 9, sample_attack ''a8'' 1]"

definition border_row :: "real \<Rightarrow> real list" where
  "border_row n = [0, 0, 3, 1, n, 4, 45 / 90, 90 / 180]"

definition border_matrix :: "real list list" where
  "border_matrix = map border_row [4, 3, 3, 5, 6, 7, 7, 9, 1]"

text \<open>
  Nine attacks that differ in intensity only, with intensities of variance 4. After
  scaling, the three attacks of intensity 2 lie at distance exactly 0.5, the radius, from
  the attack of intensity 3.
\<close>

definition tie_batch :: "attack list" where
  "tie_batch =
     [sample_attack ''t0'' 2, sample_attack ''t1'' 2, sample_attack ''t2'' 2,
      sample_attack ''t3'' 3, sample_attack ''t4'' 5, sample_attack ''t5'' 5,
      sample_attack ''t6'' 6, sample_attack ''t7'' 7, sample_attack ''t8'' 7]"

definition tie_matrix :: "real list list" where
  "tie_matrix = map border_row [2, 2, 2, 3, 5, 5, 6, 7, 7]"

text \<open>
  A library that decides such a tie differently in the two directions: its
  neighbourhoods are the exact ones, except that the points of index 0, 1 and 2 do not
  find the point of index 3, which finds them.
\<close>

definition one_sided_library :: library where
  "one_sided_library =
     sample_library \<lparr> radius_neighbors := \<lambda>eps X.
       map (\<lambda>(i, nb). if i < 3 then filter (\<lambda>j. j \<noteq> 3) nb else nb)
           (enumerate 0 (exact_radius_neighbors eps X)) \<rparr>"

text \<open>
  Five DDoS attacks from Russia of intensity 9, ten minutes apart.
\<close>

definition scenario_batch :: "attack list" where
  "scenario_batch =
     [sample_attack_at ''s0'' 9 ''2024-01-01T00:00:00Z'',
      sample_attack_at ''s1'' 9 ''2024-01-01T00:10:00Z'',
      sample_attack_at ''s2'' 9 ''2024-01-01T00:20:00Z'',
      sample_attack_at ''s3'' 9 ''2024-01-01T00:30:00Z'',
      sample_attack_at ''s4'' 9 ''2024-01-01T00:40:00Z'']"

text \<open>
  Three attacks with the same features; the timestamp of the second has no UTC offset.
\<close>

definition mixed_batch :: "attack list" where
  "mixed_batch =
     [sample_attack_at ''m0'' 9 ''2024-01-01T00:00:00Z'',
      sample_attack_at ''m1'' 9 ''2024-01-01T00:00:00'',
      sample_attack_at ''m2'' 9 ''2024-01-01T00:00:00Z'']"

text \<open>An attack whose timestamp the parser refuses.\<close>

definition unparsable_attack :: attack where
  "unparsable_attack = sample_attack_at ''x0'' 5 ''yesterday''"

text \<open>A parsed time, given by its second on the time line.\<close>

definition at_second :: "real \<Rightarrow> datetime" where
  "at_second x = \<lparr> dt_hour = 0, dt_weekday = 0, dt_aware = True, dt_instant = x \<rparr>"

text \<open>Three attacks with the same features.\<close>

definition uniform_batch :: "attack list" where
  "uniform_batch = [sample_attack ''b0'' 9, sample_attack ''b1'' 9, sample_attack ''b2'' 9]"

section \<open>The timing score in the words of the specification\<close>



section \<open>Properties of the event store\<close>

lemma store_attack_suffix:
  assumes "h = drop (length evs - MAX_HISTORY) evs"
  shows "store_attack h a = drop (length (evs @ [a]) - MAX_HISTORY) (evs @ [a])"
proof (cases "length evs < MAX_HISTORY")
  case True
  then show ?thesis
    using assms by (simp add: store_attack_def Let_def)
next
  case False
  then have len: "length h = MAX_HISTORY"
    using assms by simp
  have "store_attack h a = tl (h @ [a])"
    using len by (simp add: store_attack_def Let_def)
  also have "\<dots> = drop (Suc 0) (h @ [a])"
    by (simp only: drop_Suc drop_0)
  also have "h @ [a] = drop (length evs - MAX_HISTORY) (evs @ [a])"
    using assms False by simp
  also have "drop (Suc 0) \<dots> = drop (Suc (length evs - MAX_HISTORY)) (evs @ [a])"
    by (simp only: drop_drop) simp
  also have "\<dots> = drop (length (evs @ [a]) - MAX_HISTORY) (evs @ [a])"
    using False by (simp add: Suc_diff_le)
  finally show ?thesis .
qed

lemma store_all_suffix: "store_all evs = drop (length evs - MAX_HISTORY) evs"
proof (induction evs rule: rev_induct)
  case Nil
  then show ?case by (simp add: store_all_def)
next
  case (snoc a evs)
  have "store_all (evs @ [a]) = store_attack (store_all evs) a"
    by (simp add: store_all_def)
  then show ?case
    using store_attack_suffix [OF snoc.IH] by simp
qed

text \<open>
  C6. After any sequence of appends the store holds at most 5000 events, and it holds
  exactly the most recent ones in arrival order: a single append puts the event at the
  tail and, when the bound is exceeded, drops exactly the head.
\<close>

theorem event_store_bounded_fifo:
  "length (store_all evs) \<le> 5000
   \<and> store_all evs = drop (length evs - 5000) evs
   \<and> store_attack h a = (if length h < 5000 then h @ [a] else tl h @ [a])
   \<and> length (store_attack h a) = (if length h < 5000 then length h + 1 else length h)"
proof -
  have "store_attack h a = (if length h < 5000 then h @ [a] else tl h @ [a])"
    by (cases h) (simp_all add: store_attack_def Let_def MAX_HISTORY_def)
  moreover have "length (store_attack h a) = (if length h < 5000 then length h + 1 else length h)"
    by (cases h) (simp_all add: store_attack_def Let_def MAX_HISTORY_def)
  moreover have "store_all evs = drop (length evs - 5000) evs"
    using store_all_suffix [of evs] by (simp add: MAX_HISTORY_def)
  moreover have "length (store_all evs) \<le> 5000"
    using store_all_suffix [of evs] by (simp add: MAX_HISTORY_def)
  ultimately show ?thesis by blast
qed

section \<open>Properties of the attribution\<close>

lemma signature_score_hundredths:
  "\<exists>k::int. get_signature_score tys = of_int k / 100 \<and> k \<le> 95"
proof -
  have "get_signature_score tys \<in> {0.95, 0.90, 0.80, 0.60, 0.50}"
    by (simp add: get_signature_score_def Let_def)
  then consider "get_signature_score tys = of_int 95 / 100" | "get_signature_score tys = of_int 90 / 100"
    | "get_signature_score tys = of_int 80 / 100" | "get_signature_score tys = of_int 60 / 100"
    | "get_signature_score tys = of_int 50 / 100"
    by auto
  then show ?thesis
    by cases (rule exI, rule conjI, assumption, simp)+
qed

lemma geographic_score_hundredths:
  "\<exists>k::int. get_geographic_score country = of_int k / 100 \<and> k \<le> 92"
proof -
  have "get_geographic_score country \<in> {0.92, 0.90, 0.88, 0.91, 0.75, 0.80, 0.82, 0.40}"
    by (simp add: get_geographic_score_def geo_profiles_def)
  then consider "get_geographic_score country = of_int 92 / 100" | "get_geographic_score country = of_int 90 / 100"
    | "get_geographic_score country = of_int 88 / 100" | "get_geographic_score country = of_int 91 / 100"
    | "get_geographic_score country = of_int 75 / 100" | "get_geographic_score country = of_int 80 / 100"
    | "get_geographic_score country = of_int 82 / 100" | "get_geographic_score country = of_int 40 / 100"
    by auto
  then show ?thesis
    by cases (rule exI, rule conjI, assumption, simp)+
qed

lemma timing_score_hundredths:
  "\<exists>k::int. get_timing_score interval n = of_int k / 100 \<and> k \<le> 95"
proof -
  have "get_timing_score interval n \<in> {0.50, 0.95, 0.88, 0.80, 0.65, 0.45}"
    by (simp add: get_timing_score_def)
  then consider "get_timing_score interval n = of_int 50 / 100" | "get_timing_score interval n = of_int 95 / 100"
    | "get_timing_score interval n = of_int 88 / 100" | "get_timing_score interval n = of_int 80 / 100"
    | "get_timing_score interval n = of_int 65 / 100" | "get_timing_score interval n = of_int 45 / 100"
    by auto
  then show ?thesis
    by cases (rule exI, rule conjI, assumption, simp)+
qed

lemma operational_score_hundredths:
  "\<exists>k::int. get_operational_score tys n = of_int k / 100 \<and> k \<le> 95"
proof -
  have "get_operational_score tys n \<in> {0.50, 0.62, 0.70, 0.65, 0.77, 0.85, 0.75, 0.87, 0.95}"
    by (simp add: get_operational_score_def Let_def)
  then consider "get_operational_score tys n = of_int 50 / 100" | "get_operational_score tys n = of_int 62 / 100"
    | "get_operational_score tys n = of_int 70 / 100" | "get_operational_score tys n = of_int 65 / 100"
    | "get_operational_score tys n = of_int 77 / 100" | "get_operational_score tys n = of_int 85 / 100"
    | "get_operational_score tys n = of_int 75 / 100" | "get_operational_score tys n = of_int 87 / 100"
    | "get_operational_score tys n = of_int 95 / 100"
    by auto
  then show ?thesis
    by cases (rule exI, rule conjI, assumption, simp)+
qed

lemma round_half_even_of_int: "round_half_even (of_int m) = m"
  by (simp add: round_half_even_def)

lemma py_round_exact: "py_round (of_int m / 10 ^ n) n = of_int m / 10 ^ n"
  by (simp add: py_round_def round_half_even_of_int)

lemma weighted_confidence_exact:
  "\<exists>m::int. weighted_confidence (get_signature_score tys) (get_geographic_score country)
       (get_timing_score interval n) (get_operational_score tys n) = of_int m / 10 ^ 4
     \<and> m \<le> 9700"
proof -
  obtain ks where ks: "get_signature_score tys = of_int ks / 100" "ks \<le> 95"
    using signature_score_hundredths by blast
  obtain kg where kg: "get_geographic_score country = of_int kg / 100" "kg \<le> 92"
    using geographic_score_hundredths by blast
  obtain kt where kt: "get_timing_score interval n = of_int kt / 100" "kt \<le> 95"
    using timing_score_hundredths by blast
  obtain ko where ko: "get_operational_score tys n = of_int ko / 100" "ko \<le> 95"
    using operational_score_hundredths by blast
  have "weighted_confidence (get_signature_score tys) (get_geographic_score country)
       (get_timing_score interval n) (get_operational_score tys n)
        = of_int (40 * ks + 25 * kg + 20 * kt + 15 * ko) / 10 ^ 4"
    by (simp add: weighted_confidence_def ks kg kt ko)
  moreover have "40 * ks + 25 * kg + 20 * kt + 15 * ko \<le> 9700"
    using ks(2) kg(2) kt(2) ko(2) by linarith
  ultimately show ?thesis by blast
qed

section \<open>Properties of the labelling loop\<close>

lemma visit_length: "length (fst (visit C N l i st lab)) = length lab"
  by (simp add: visit_def Let_def)

lemma visit_nth:
  "k < length lab \<Longrightarrow>
   fst (visit C N l i st lab) ! k = lab ! k \<or> (k = i \<and> lab ! k = -1 \<and> fst (visit C N l i st lab) ! k = int l)"
  by (auto simp: visit_def Let_def nth_list_update)

lemma visit_stack: "set st \<subseteq> set (snd (visit C N l i st lab))"
  by (auto simp: visit_def Let_def)

lemma visit_labels_i: "i < length lab \<Longrightarrow> fst (visit C N l i st lab) ! i \<noteq> -1"
  by (auto simp: visit_def Let_def)

lemma visit_pushed:
  "i < length lab \<Longrightarrow> lab ! i = -1 \<Longrightarrow> C ! i \<Longrightarrow> w \<in> set (N ! i) \<Longrightarrow>
   fst (visit C N l i st lab) ! w = -1 \<Longrightarrow> w \<in> set (snd (visit C N l i st lab))"
  by (auto simp: visit_def Let_def)

lemma visit_stack_origin:
  "w \<in> set (snd (visit C N l i st lab)) \<Longrightarrow>
   w \<in> set st \<or> (i < length lab \<and> lab ! i = -1 \<and> C ! i \<and> w \<in> set (N ! i))"
  by (auto simp: visit_def Let_def split: if_splits)

lemma dfs_Nil: "visit C N l i st lab = (lab', []) \<Longrightarrow> dfs C N l i st lab = lab'"
  by (subst dfs.simps) simp

lemma dfs_Cons:
  "visit C N l i st lab = (lab', v # rest) \<Longrightarrow> dfs C N l i st lab = dfs C N l v rest lab'"
  by (subst dfs.simps) simp

lemma dfs_preserves:
  "length (dfs C N l i st lab) = length lab \<and>
   (\<forall>k<length lab. dfs C N l i st lab ! k = lab ! k
        \<or> (lab ! k = -1 \<and> dfs C N l i st lab ! k = int l))"
proof (induction C N l i st lab rule: dfs.induct)
  case (1 C N l i st lab)
  obtain lab' st' where v: "visit C N l i st lab = (lab', st')"
    by (cases "visit C N l i st lab")
  have len: "length lab' = length lab"
    using visit_length [of C N l i st lab] v by simp
  have nth: "\<forall>k<length lab. lab' ! k = lab ! k \<or> (lab ! k = -1 \<and> lab' ! k = int l)"
    using visit_nth [of _ lab C N l i st] v by auto
  show ?case
  proof (cases st')
    case Nil
    then have "dfs C N l i st lab = lab'"
      using v dfs_Nil by simp
    then show ?thesis
      using len nth by simp
  next
    case (Cons w rest)
    have IH: "length (dfs C N l w rest lab') = length lab' \<and>
      (\<forall>k<length lab'. dfs C N l w rest lab' ! k = lab' ! k
           \<or> (lab' ! k = -1 \<and> dfs C N l w rest lab' ! k = int l))"
      using 1 [OF v [symmetric] Cons] .
    have eq: "dfs C N l i st lab = dfs C N l w rest lab'"
      using v Cons dfs_Cons by simp
    show ?thesis
      unfolding eq using IH len nth by (metis)
  qed
qed

lemma dfs_length: "length (dfs C N l i st lab) = length lab"
  using dfs_preserves by blast

lemma dfs_keeps_label:
  "k < length lab \<Longrightarrow> lab ! k \<noteq> -1 \<Longrightarrow> dfs C N l i st lab ! k = lab ! k"
  using dfs_preserves [of C N l i st lab] by auto

lemma dfs_new_label:
  "k < length lab \<Longrightarrow> lab ! k = -1 \<Longrightarrow> dfs C N l i st lab ! k \<noteq> -1 \<Longrightarrow>
   dfs C N l i st lab ! k = int l"
  using dfs_preserves [of C N l i st lab] by auto

lemma dfs_labels_stack:
  "v \<in> set (i # st) \<Longrightarrow> v < length lab \<Longrightarrow> dfs C N l i st lab ! v \<noteq> -1"
proof (induction C N l i st lab rule: dfs.induct)
  case (1 C N l i st lab)
  obtain lab' st' where vis: "visit C N l i st lab = (lab', st')"
    by (cases "visit C N l i st lab")
  have len: "length lab' = length lab"
    using visit_length [of C N l i st lab] vis by simp
  have sub: "set st \<subseteq> set st'"
    using visit_stack [of st C N l i lab] vis by simp
  have li: "i < length lab \<Longrightarrow> lab' ! i \<noteq> -1"
    using visit_labels_i [of i lab C N l st] vis by simp
  show ?case
  proof (cases st')
    case Nil
    then have "dfs C N l i st lab = lab'"
      using vis dfs_Nil by simp
    moreover have "v = i"
      using "1.prems"(1) sub Nil by auto
    ultimately show ?thesis
      using li "1.prems"(2) by simp
  next
    case (Cons w rest)
    have eq: "dfs C N l i st lab = dfs C N l w rest lab'"
      using vis Cons dfs_Cons by simp
    show ?thesis
    proof (cases "v \<in> set st")
      case True
      then have "v \<in> set (w # rest)"
        using sub Cons by auto
      then show ?thesis
        unfolding eq using "1.IH" [OF vis [symmetric] Cons] "1.prems"(2) len by simp
    next
      case False
      then have "v = i"
        using "1.prems"(1) by simp
      then have "lab' ! v \<noteq> -1" "v < length lab'"
        using li "1.prems"(2) len by simp_all
      then show ?thesis
        unfolding eq using dfs_keeps_label by simp
    qed
  qed
qed

lemma dfs_closed:
  "u < length lab \<Longrightarrow> C ! u \<Longrightarrow> lab ! u = -1 \<Longrightarrow> dfs C N l i st lab ! u \<noteq> -1 \<Longrightarrow>
   w \<in> set (N ! u) \<Longrightarrow> w < length lab \<Longrightarrow> dfs C N l i st lab ! w \<noteq> -1"
proof (induction C N l i st lab rule: dfs.induct)
  case (1 C N l i st lab)
  obtain lab' st' where vis: "visit C N l i st lab = (lab', st')"
    by (cases "visit C N l i st lab")
  have len: "length lab' = length lab"
    using visit_length [of C N l i st lab] vis by simp
  have nth: "\<And>k. k < length lab \<Longrightarrow> lab' ! k = lab ! k \<or> (k = i \<and> lab ! k = -1 \<and> lab' ! k = int l)"
    using visit_nth [of _ lab C N l i st] vis by auto
  show ?case
  proof (cases "lab' ! u = -1")
    case True
    show ?thesis
    proof (cases st')
      case Nil
      then have "dfs C N l i st lab = lab'"
        using vis dfs_Nil by simp
      then show ?thesis
        using True "1.prems"(4) by simp
    next
      case (Cons v rest)
      have eq: "dfs C N l i st lab = dfs C N l v rest lab'"
        using vis Cons dfs_Cons by simp
      show ?thesis
        unfolding eq
        using "1.IH" [OF vis [symmetric] Cons] "1.prems" True len
        unfolding eq by simp
    qed
  next
    case False
    then have ui: "u = i"
      using nth [of u] "1.prems"(1,3) by auto
    show ?thesis
    proof (cases "lab' ! w = -1")
      case True
      then have "w \<in> set st'"
        using visit_pushed [of i lab C w N l st] vis "1.prems" ui by simp
      then obtain v rest where Cons: "st' = v # rest" and "w \<in> set (v # rest)"
        by (cases st') auto
      have eq: "dfs C N l i st lab = dfs C N l v rest lab'"
        using vis Cons dfs_Cons by simp
      show ?thesis
        unfolding eq using dfs_labels_stack [OF \<open>w \<in> set (v # rest)\<close>] "1.prems"(6) len by simp
    next
      case wl: False
      show ?thesis
      proof (cases st')
        case Nil
        then have "dfs C N l i st lab = lab'"
          using vis dfs_Nil by simp
        then show ?thesis
          using wl by simp
      next
        case (Cons v rest)
        have eq: "dfs C N l i st lab = dfs C N l v rest lab'"
          using vis Cons dfs_Cons by simp
        show ?thesis
          unfolding eq using dfs_keeps_label [of w lab'] wl "1.prems"(6) len by simp
      qed
    qed
  qed
qed

lemma dfs_origin:
  "u < length lab \<Longrightarrow> lab ! u = -1 \<Longrightarrow> dfs C N l i st lab ! u \<noteq> -1 \<Longrightarrow>
   u \<in> set (i # st) \<or>
   (\<exists>q<length lab. C ! q \<and> u \<in> set (N ! q) \<and> dfs C N l i st lab ! q \<noteq> -1)"
proof (induction C N l i st lab rule: dfs.induct)
  case (1 C N l i st lab)
  obtain lab' st' where vis: "visit C N l i st lab = (lab', st')"
    by (cases "visit C N l i st lab")
  have len: "length lab' = length lab"
    using visit_length [of C N l i st lab] vis by simp
  have nth: "\<And>k. k < length lab \<Longrightarrow> lab' ! k = lab ! k \<or> (k = i \<and> lab ! k = -1 \<and> lab' ! k = int l)"
    using visit_nth [of _ lab C N l i st] vis by auto
  show ?case
  proof (cases "lab' ! u = -1")
    case False
    then have "u = i"
      using nth [of u] "1.prems"(1,2) by auto
    then show ?thesis by simp
  next
    case True
    show ?thesis
    proof (cases st')
      case Nil
      then have "dfs C N l i st lab = lab'"
        using vis dfs_Nil by simp
      then show ?thesis
        using True "1.prems"(3) by simp
    next
      case (Cons v rest)
      have eq: "dfs C N l i st lab = dfs C N l v rest lab'"
        using vis Cons dfs_Cons by simp
      have "u \<in> set (v # rest) \<or>
        (\<exists>q<length lab'. C ! q \<and> u \<in> set (N ! q) \<and> dfs C N l v rest lab' ! q \<noteq> -1)"
        using "1.IH" [OF vis [symmetric] Cons] "1.prems" True len unfolding eq by simp
      then show ?thesis
      proof
        assume "u \<in> set (v # rest)"
        then have "u \<in> set st'"
          using Cons by simp
        then have "u \<in> set st \<or> (i < length lab \<and> lab ! i = -1 \<and> C ! i \<and> u \<in> set (N ! i))"
          using visit_stack_origin [of u C N l i st lab] vis by simp
        then show ?thesis
        proof
          assume "u \<in> set st"
          then show ?thesis by simp
        next
          assume a: "i < length lab \<and> lab ! i = -1 \<and> C ! i \<and> u \<in> set (N ! i)"
          then have "dfs C N l i st lab ! i \<noteq> -1"
            using dfs_labels_stack [of i i st lab C N l] by simp
          then show ?thesis
            using a by blast
        qed
      next
        assume "\<exists>q<length lab'. C ! q \<and> u \<in> set (N ! q) \<and> dfs C N l v rest lab' ! q \<noteq> -1"
        then show ?thesis
          unfolding eq using len by auto
      qed
    qed
  qed
qed

lemma labels_ok_init: "labels_ok m C N (replicate n (-1))"
  by (auto simp: labels_ok_def)

lemma seed_neighbours_unlabelled:
  assumes g: "graph_ok m C N n" and m3: "m \<le> 3" and len: "length lab = n"
    and ok: "labels_ok m C N lab" and p: "p < n" "lab ! p = -1" "C ! p"
    and w: "w \<in> set (N ! p)"
  shows "lab ! w = -1"
proof (rule ccontr)
  assume lw: "lab ! w \<noteq> -1"
  have wn: "w < n"
    using g p(1) w by (auto simp: graph_ok_def)
  have pw: "p \<in> set (N ! w)"
    using g p(1) w by (auto simp: graph_ok_def)
  show False
  proof (cases "C ! w")
    case True
    then have "lab ! p \<noteq> -1"
      using ok lw wn pw len by (auto simp: labels_ok_def)
    then show False
      using p(2) by simp
  next
    case False
    then obtain q where q: "q \<in> set (N ! w)" "C ! q" "lab ! q \<noteq> -1"
      using ok lw wn len unfolding labels_ok_def by blast
    have ww: "w \<in> set (N ! w)"
      using g wn by (auto simp: graph_ok_def)
    have ne: "w \<noteq> p" "q \<noteq> p" "w \<noteq> q"
      using lw p(2) q False by auto
    have "{w, p, q} \<subseteq> set (N ! w)"
      using ww pw q(1) by simp
    then have "card {w, p, q} \<le> card (set (N ! w))"
      by (intro card_mono) simp_all
    moreover have "card {w, p, q} = 3"
      using ne by simp
    moreover have "card (set (N ! w)) = length (N ! w)"
      using g wn by (simp add: graph_ok_def distinct_card)
    ultimately have "3 \<le> length (N ! w)"
      by simp
    then have "m \<le> int (length (N ! w))"
      using m3 by simp
    then have "C ! w"
      using g wn by (simp add: graph_ok_def)
    then show False
      using False by simp
  qed
qed

lemma dfs_step_ok:
  assumes g: "graph_ok m C N n" and m3: "m \<le> 3" and len: "length lab = n"
    and ok: "labels_ok m C N lab" and p: "p < n" "lab ! p = -1" "C ! p"
  shows "labels_ok m C N (dfs C N l p [] lab)"
proof -
  let ?R = "dfs C N l p [] lab"
  have lenR: "length ?R = n"
    using len by (simp add: dfs_length)
  have inr: "\<And>i w. i < n \<Longrightarrow> w \<in> set (N ! i) \<Longrightarrow> w < n"
    using g by (auto simp: graph_ok_def)
  have sym: "\<And>i w. i < n \<Longrightarrow> w \<in> set (N ! i) \<Longrightarrow> i \<in> set (N ! w)"
    using g by (auto simp: graph_ok_def)
  have Rp: "?R ! p \<noteq> -1"
    using dfs_labels_stack [of p p "[]" lab C N l] p(1) len by simp
  have closed: "\<forall>u<length ?R. C ! u \<longrightarrow> ?R ! u \<noteq> -1 \<longrightarrow> (\<forall>w \<in> set (N ! u). ?R ! w \<noteq> -1)"
  proof (intro allI impI ballI)
    fix u w
    assume u: "u < length ?R" "C ! u" "?R ! u \<noteq> -1" and w: "w \<in> set (N ! u)"
    have un: "u < n" using u(1) lenR by simp
    have wn: "w < n" using inr un w by simp
    show "?R ! w \<noteq> -1"
    proof (cases "lab ! u = -1")
      case True
      then show ?thesis
        using dfs_closed [of u lab C N l p "[]" w] un wn u w len by simp
    next
      case False
      then have "lab ! w \<noteq> -1"
        using ok un u(2) w len by (auto simp: labels_ok_def)
      then show ?thesis
        using dfs_keeps_label [of w lab C N l p "[]"] wn len by simp
    qed
  qed
  have border: "\<forall>b<length ?R. ?R ! b \<noteq> -1 \<longrightarrow> \<not> C ! b \<longrightarrow> (\<exists>q \<in> set (N ! b). C ! q \<and> ?R ! q \<noteq> -1)"
  proof (intro allI impI)
    fix b
    assume b: "b < length ?R" "?R ! b \<noteq> -1" "\<not> C ! b"
    have bn: "b < n" using b(1) lenR by simp
    show "\<exists>q \<in> set (N ! b). C ! q \<and> ?R ! q \<noteq> -1"
    proof (cases "lab ! b = -1")
      case True
      then have "b \<in> set (p # []) \<or>
          (\<exists>q<length lab. C ! q \<and> b \<in> set (N ! q) \<and> ?R ! q \<noteq> -1)"
        using dfs_origin [of b lab C N l p "[]"] bn b(2) len by simp
      moreover have "b \<noteq> p"
        using b(3) p(3) by auto
      ultimately obtain q where q: "q < n" "C ! q" "b \<in> set (N ! q)" "?R ! q \<noteq> -1"
        using len by auto
      then have "q \<in> set (N ! b)"
        using sym by simp
      then show ?thesis
        using q by blast
    next
      case False
      then obtain q where q: "q \<in> set (N ! b)" "C ! q" "lab ! q \<noteq> -1"
        using ok bn b(3) len unfolding labels_ok_def by blast
      then have "q < n"
        using inr bn by simp
      then have "?R ! q \<noteq> -1"
        using dfs_keeps_label [of q lab C N l p "[]"] q(3) len by simp
      then show ?thesis
        using q by blast
    qed
  qed
  have sizes: "\<forall>c. c \<noteq> -1 \<longrightarrow> c \<in> set ?R \<longrightarrow> m \<le> int (length (indices_where ?R c))"
  proof (intro allI impI)
    fix c
    assume c: "c \<noteq> -1" "c \<in> set ?R"
    show "m \<le> int (length (indices_where ?R c))"
    proof (cases "c = int l")
      case True
      have "set (N ! p) \<subseteq> set (indices_where ?R c)"
      proof
        fix w
        assume w: "w \<in> set (N ! p)"
        have wn: "w < n" using inr p(1) w by simp
        have "lab ! w = -1"
          using seed_neighbours_unlabelled [OF g m3 len ok p w] .
        moreover have "?R ! w \<noteq> -1"
          using closed lenR p(1,3) Rp w by auto
        ultimately have "?R ! w = int l"
          using dfs_new_label [of w lab C N l p "[]"] wn len by simp
        then show "w \<in> set (indices_where ?R c)"
          using wn lenR True by (simp add: indices_where_def)
      qed
      then have "card (set (N ! p)) \<le> card (set (indices_where ?R c))"
        by (intro card_mono) simp_all
      moreover have "card (set (N ! p)) = length (N ! p)"
        using g p(1) by (simp add: graph_ok_def distinct_card)
      moreover have "card (set (indices_where ?R c)) \<le> length (indices_where ?R c)"
        by (rule card_length)
      moreover have "m \<le> int (length (N ! p))"
        using g p(1,3) by (simp add: graph_ok_def)
      ultimately show ?thesis
        by linarith
    next
      case False
      have same: "\<And>k. k < n \<Longrightarrow> (?R ! k = c) = (lab ! k = c)"
        using dfs_preserves [of C N l p "[]" lab] False c(1) len by auto
      have "indices_where ?R c = indices_where lab c"
        unfolding indices_where_def lenR len
        by (rule filter_cong) (simp_all add: same)
      moreover obtain k where "k < n" "?R ! k = c"
        using c(2) lenR by (auto simp: in_set_conv_nth)
      then have "c \<in> set lab"
        using same len by (auto simp: in_set_conv_nth)
      ultimately show ?thesis
        using ok c(1) by (simp add: labels_ok_def)
    qed
  qed
  show ?thesis
    unfolding labels_ok_def using closed border sizes by blast
qed

lemma dbscan_loop_ok:
  assumes g: "graph_ok m C N n" and m3: "m \<le> 3"
  shows "length lab = n \<Longrightarrow> labels_ok m C N lab \<Longrightarrow> set idx \<subseteq> {..<n} \<Longrightarrow>
     length (dbscan_loop C N idx l lab) = n \<and> labels_ok m C N (dbscan_loop C N idx l lab)"
proof (induction idx arbitrary: l lab)
  case Nil
  then show ?case by simp
next
  case (Cons i idx)
  show ?case
  proof (cases "lab ! i \<noteq> -1 \<or> \<not> C ! i")
    case True
    then show ?thesis
      using Cons by simp
  next
    case False
    then have p: "i < n" "lab ! i = -1" "C ! i"
      using Cons.prems(3) by auto
    have "labels_ok m C N (dfs C N l i [] lab)"
      using dfs_step_ok [OF g m3 Cons.prems(1,2) p] .
    moreover have "length (dfs C N l i [] lab) = n"
      using Cons.prems(1) by (simp add: dfs_length)
    ultimately show ?thesis
      using False Cons.IH [of "dfs C N l i [] lab" "l + 1"] Cons.prems(3) by simp
  qed
qed

section \<open>The labelling does not depend on the order of the neighbourhoods\<close>

text \<open>
  A search labels exactly the points of \<open>reach\<close>, whatever the order in which the
  neighbours are pushed and popped; so the labels are a function of the sets of
  neighbours and of which points are core samples.
\<close>

lemma reach_unlabelled: "x \<in> reach C N lab S \<Longrightarrow> x < length lab \<and> lab ! x = -1"
  by (induction rule: reach.induct) simp_all

lemma reach_empty: "reach C N lab {} = {}"
proof -
  have "x \<in> reach C N lab {} \<Longrightarrow> False" for x
    by (induction rule: reach.induct) simp_all
  then show ?thesis by blast
qed

lemma reach_skip:
  assumes "\<not> (i < length lab \<and> lab ! i = -1)"
  shows "reach C N lab (insert i S) = reach C N lab S"
proof (intro set_eqI iffI)
  fix x
  assume "x \<in> reach C N lab (insert i S)"
  then show "x \<in> reach C N lab S"
  proof (induction rule: reach.induct)
    case (start s)
    then show ?case using assms by (auto intro: reach.start)
  next
    case (step q w)
    then show ?case by (auto intro: reach.step)
  qed
next
  fix x
  assume "x \<in> reach C N lab S"
  then show "x \<in> reach C N lab (insert i S)"
  proof (induction rule: reach.induct)
    case (start s)
    then show ?case by (auto intro: reach.start)
  next
    case (step q w)
    then show ?case by (auto intro: reach.step)
  qed
qed

lemma reach_take:
  assumes i: "i < length lab" "lab ! i = -1" and l: "l' \<noteq> -1"
    and S': "S' = (if C ! i then {w \<in> set (N ! i). lab[i := l'] ! w = -1} \<union> S else S)"
  shows "reach C N lab (insert i S) = insert i (reach C N (lab[i := l']) S')"
proof (intro set_eqI iffI)
  fix x
  assume "x \<in> reach C N lab (insert i S)"
  then show "x \<in> insert i (reach C N (lab[i := l']) S')"
  proof (induction rule: reach.induct)
    case (start s)
    show ?case
    proof (cases "s = i")
      case True
      then show ?thesis by simp
    next
      case False
      then have "s \<in> S'" "s < length (lab[i := l'])" "lab[i := l'] ! s = -1"
        using start S' by auto
      then show ?thesis
        by (auto intro: reach.start)
    qed
  next
    case (step q w)
    show ?case
    proof (cases "w = i")
      case True
      then show ?thesis by simp
    next
      case False
      then have w: "w < length (lab[i := l'])" "lab[i := l'] ! w = -1"
        using step by auto
      show ?thesis
      proof (cases "q = i")
        case True
        then have "w \<in> S'"
          using step w S' by auto
        then show ?thesis
          using w by (auto intro: reach.start)
      next
        case False
        then have "q \<in> reach C N (lab[i := l']) S'"
          using step by simp
        then show ?thesis
          using step w by (auto intro: reach.step)
      qed
    qed
  qed
next
  fix x
  assume x: "x \<in> insert i (reach C N (lab[i := l']) S')"
  have "y \<in> reach C N (lab[i := l']) S' \<Longrightarrow> y \<in> reach C N lab (insert i S)" for y
  proof (induction rule: reach.induct)
    case (start s)
    then have s: "s \<noteq> i" "s < length lab" "lab ! s = -1"
      using l i by (auto simp: nth_list_update split: if_splits)
    show ?case
    proof (cases "s \<in> S")
      case True
      then show ?thesis
        using s by (auto intro: reach.start)
    next
      case False
      then have "C ! i" "s \<in> set (N ! i)"
        using start S' by (auto split: if_splits)
      moreover have "i \<in> reach C N lab (insert i S)"
        using i by (auto intro: reach.start)
      ultimately show ?thesis
        using s by (auto intro: reach.step)
    qed
  next
    case (step q w)
    then have "w < length lab" "lab ! w = -1"
      using l i by (auto simp: nth_list_update split: if_splits)
    then show ?case
      using step by (auto intro: reach.step)
  qed
  moreover have "i \<in> reach C N lab (insert i S)"
    using i by (auto intro: reach.start)
  ultimately show "x \<in> reach C N lab (insert i S)"
    using x by auto
qed

lemma visit_reach:
  assumes "visit C N l i st lab = (lab', st')"
  shows "reach C N lab (set (i # st))
     = (if i < length lab \<and> lab ! i = -1 then {i} else {}) \<union> reach C N lab' (set st')"
proof (cases "i < length lab \<and> lab ! i = -1")
  case True
  have lab': "lab' = lab[i := int l]"
    and st': "set st' = (if C ! i then {w \<in> set (N ! i). lab[i := int l] ! w = -1} \<union> set st
                         else set st)"
    using assms True by (auto simp: visit_def Let_def)
  have "int l \<noteq> -1"
    by simp
  then show ?thesis
    using reach_take [of i lab "int l" "set st'" C N "set st"] True st' lab' by simp
next
  case False
  then have "lab' = lab" "st' = st"
    using assms by (auto simp: visit_def Let_def)
  then show ?thesis
    using reach_skip [OF False, of C N "set st"] False by auto
qed

lemma dfs_reach:
  "k < length lab \<Longrightarrow>
   dfs C N l i st lab ! k = (if k \<in> reach C N lab (set (i # st)) then int l else lab ! k)"
proof (induction C N l i st lab rule: dfs.induct)
  case (1 C N l i st lab)
  obtain lab' st' where vis: "visit C N l i st lab = (lab', st')"
    by (cases "visit C N l i st lab")
  have len: "length lab' = length lab"
    using visit_length [of C N l i st lab] vis by simp
  have r: "reach C N lab (set (i # st))
     = (if i < length lab \<and> lab ! i = -1 then {i} else {}) \<union> reach C N lab' (set st')"
    using visit_reach [OF vis] .
  have lab'k: "lab' ! k = (if k = i \<and> lab ! i = -1 then int l else lab ! k)"
    using vis "1.prems" by (auto simp: visit_def Let_def nth_list_update split: if_splits)
  show ?case
  proof (cases st')
    case Nil
    then have "dfs C N l i st lab = lab'"
      using vis dfs_Nil by simp
    then show ?thesis
      using r Nil lab'k "1.prems" by (auto simp: reach_empty)
  next
    case (Cons w rest)
    have eq: "dfs C N l i st lab = dfs C N l w rest lab'"
      using vis Cons dfs_Cons by simp
    have IH: "dfs C N l w rest lab' ! k
        = (if k \<in> reach C N lab' (set (w # rest)) then int l else lab' ! k)"
      using "1.IH" [OF vis [symmetric] Cons] "1.prems" len by simp
    show ?thesis
      unfolding eq IH using r Cons lab'k "1.prems" by auto
  qed
qed

lemma reach_cong:
  assumes "\<forall>q<length lab. C ! q = C' ! q \<and> set (N ! q) = set (N' ! q)"
  shows "reach C N lab S = reach C' N' lab S"
proof (intro set_eqI iffI)
  fix x
  assume "x \<in> reach C N lab S"
  then show "x \<in> reach C' N' lab S"
  proof (induction rule: reach.induct)
    case (start s)
    then show ?case by (auto intro: reach.start)
  next
    case (step q w)
    have "q < length lab"
      using reach_unlabelled [OF step(1)] by simp
    then have "C' ! q" "w \<in> set (N' ! q)"
      using assms step by auto
    then show ?case
      using step by (auto intro: reach.step)
  qed
next
  fix x
  assume "x \<in> reach C' N' lab S"
  then show "x \<in> reach C N lab S"
  proof (induction rule: reach.induct)
    case (start s)
    then show ?case by (auto intro: reach.start)
  next
    case (step q w)
    have "q < length lab"
      using reach_unlabelled [OF step(1)] by simp
    then have "C ! q" "w \<in> set (N ! q)"
      using assms step by auto
    then show ?case
      using step by (auto intro: reach.step)
  qed
qed

lemma dfs_cong:
  assumes "\<forall>q<length lab. C ! q = C' ! q \<and> set (N ! q) = set (N' ! q)"
  shows "dfs C N l i st lab = dfs C' N' l i st lab"
proof (rule nth_equalityI)
  show "length (dfs C N l i st lab) = length (dfs C' N' l i st lab)"
    by (simp add: dfs_length)
next
  fix k
  assume "k < length (dfs C N l i st lab)"
  then have "k < length lab"
    by (simp add: dfs_length)
  then show "dfs C N l i st lab ! k = dfs C' N' l i st lab ! k"
    using reach_cong [OF assms] by (simp add: dfs_reach)
qed

lemma dbscan_loop_cong:
  assumes "\<forall>q<n. C ! q = C' ! q \<and> set (N ! q) = set (N' ! q)"
  shows "length lab = n \<Longrightarrow> set idx \<subseteq> {..<n} \<Longrightarrow>
    dbscan_loop C N idx l lab = dbscan_loop C' N' idx l lab"
proof (induction idx arbitrary: l lab)
  case Nil
  then show ?case by simp
next
  case (Cons i idx)
  have i: "C ! i = C' ! i"
    using assms Cons.prems by simp
  have d: "dfs C N l i [] lab = dfs C' N' l i [] lab"
    using dfs_cong [of lab C C' N N'] assms Cons.prems(1) by simp
  have "length (dfs C' N' l i [] lab) = n"
    using Cons.prems(1) by (simp add: dfs_length)
  then show ?case
    using Cons.IH [of lab l] Cons.IH [of "dfs C' N' l i [] lab" "l + 1"] Cons.prems i d by simp
qed

lemma fit_predict_cong:
  assumes "same_neighbors (radius_neighbors L eps X) (radius_neighbors L2 eps X) (length X)"
  shows "fit_predict L2 eps m X = fit_predict L eps m X"
proof -
  let ?N = "radius_neighbors L eps X" and ?N2 = "radius_neighbors L2 eps X"
  let ?C = "map (\<lambda>nb. m \<le> int (length nb)) ?N" and ?C2 = "map (\<lambda>nb. m \<le> int (length nb)) ?N2"
  have "\<forall>q<length X. ?C2 ! q = ?C ! q \<and> set (?N2 ! q) = set (?N ! q)"
    using assms by (simp add: same_neighbors_def)
  then have "dbscan_loop ?C2 ?N2 [0..<length X] 0 (replicate (length X) (-1))
      = dbscan_loop ?C ?N [0..<length X] 0 (replicate (length X) (-1))"
    by (intro dbscan_loop_cong [where n = "length X"]) auto
  then show ?thesis
    by (simp add: fit_predict_def dbscan_inner_def Let_def)
qed


section \<open>Properties of clustering and of the campaigns it forms\<close>

lemma euclidean_sym: "euclidean a b = euclidean b a"
proof -
  have "map (\<lambda>(x, y). (x - y)\<^sup>2) (zip a b) = map (\<lambda>(x, y). (x - y)\<^sup>2) (zip b a)"
    by (subst zip_commute) (simp add: case_prod_unfold power2_commute)
  then show ?thesis
    by (simp add: euclidean_def)
qed

lemma euclidean_refl: "euclidean a a = 0"
  by (simp add: euclidean_def zip_same_conv_map comp_def)

lemma exact_radius_neighbors_nth:
  "i < length X \<Longrightarrow>
   exact_radius_neighbors eps X ! i = filter (\<lambda>j. euclidean (X ! i) (X ! j) \<le> eps) [0..<length X]"
  by (simp add: exact_radius_neighbors_def)

lemma exact_radius_neighbors_ok:
  assumes "0 \<le> eps"
  shows "neighborhoods_ok (exact_radius_neighbors eps X) (length X)"
proof -
  have len: "length (exact_radius_neighbors eps X) = length X"
    by (simp add: exact_radius_neighbors_def)
  show ?thesis
    unfolding neighborhoods_ok_def
    using assms len
    by (auto simp: exact_radius_neighbors_nth euclidean_refl euclidean_sym)
qed

lemma neighborhoods_graph_ok:
  "neighborhoods_ok N n \<Longrightarrow> graph_ok m (map (\<lambda>nb. m \<le> int (length nb)) N) N n"
  by (simp add: neighborhoods_ok_def graph_ok_def)

lemma fit_predict_ok:
  assumes "m \<le> 3" "neighborhoods_ok (radius_neighbors L eps X) (length X)"
    "fit_predict L eps m X = Inr labels"
  shows "length labels = length X \<and>
    (\<forall>c. c \<noteq> -1 \<longrightarrow> c \<in> set labels \<longrightarrow> m \<le> int (length (indices_where labels c)))"
proof -
  let ?N = "radius_neighbors L eps X"
  let ?C = "map (\<lambda>nb. m \<le> int (length nb)) ?N"
  have lab: "labels = dbscan_loop ?C ?N [0..<length X] 0 (replicate (length X) (-1))"
    using assms(3) by (simp add: fit_predict_def dbscan_inner_def Let_def split: if_splits)
  have "length labels = length X \<and> labels_ok m ?C ?N labels"
    unfolding lab
    by (rule dbscan_loop_ok [OF neighborhoods_graph_ok [OF assms(2)] assms(1)])
       (auto simp: labels_ok_init)
  then show ?thesis
    by (simp add: labels_ok_def)
qed

lemma create_campaign_result:
  assumes "create_campaign L self attacks ids = Inr (c, self')"
  shows "attack_ids c = ids" "num_attacks c = length attacks"
    "campaign_id c = campaign_id_of (next_campaign_id self)"
    "next_campaign_id self' = next_campaign_id self + 1"
    "campaigns self' = dict_set (campaigns self) (campaign_id c) c"
    "attack_to_campaign self' = attack_to_campaign self"
  using assms
  by (auto simp: create_campaign_def Let_def split: sum.splits list.splits if_splits)

lemma form_campaigns_members:
  "form_campaigns L history ids labels cids self = (Inr cs, self') \<Longrightarrow> c \<in> set cs \<Longrightarrow>
   \<exists>cid \<in> set cids. cid \<noteq> -1
      \<and> attack_ids c = map (\<lambda>i. ids ! i) (indices_where labels cid)
      \<and> num_attacks c = length (indices_where labels cid)"
proof (induction cids arbitrary: self cs)
  case Nil
  then show ?case by simp
next
  case (Cons cid cids)
  show ?case
  proof (cases "cid = -1")
    case True
    then show ?thesis
      using Cons by auto
  next
    case False
    let ?idx = "indices_where labels cid"
    obtain c0 s0 where cc: "create_campaign L self (map (\<lambda>i. history ! i) ?idx)
        (map (\<lambda>i. ids ! i) ?idx) = Inr (c0, s0)"
      using Cons.prems(1) False by (auto simp: Let_def split: sum.splits)
    let ?s1 = "s0 \<lparr> attack_to_campaign :=
                       foldl (\<lambda>d a. dict_set d a (campaign_id c0))
                         (attack_to_campaign s0) (map (\<lambda>i. ids ! i) ?idx) \<rparr>"
    obtain cs' where rest: "form_campaigns L history ids labels cids ?s1 = (Inr cs', self')"
      and cs: "cs = c0 # cs'"
      using Cons.prems(1) False cc by (auto simp: Let_def split: sum.splits prod.splits)
    show ?thesis
    proof (cases "c = c0")
      case True
      then show ?thesis
        using create_campaign_result(1,2) [OF cc] False by auto
    next
      case False
      then have "c \<in> set cs'"
        using Cons.prems(2) cs by simp
      then show ?thesis
        using Cons.IH [OF rest] by auto
    qed
  qed
qed

lemma cluster_ids_set: "set (cluster_ids labels) = set labels"
  by (simp add: cluster_ids_def)

lemma col_var_nonneg: "0 \<le> col_var X j"
proof -
  have "0 \<le> sum_list (map (\<lambda>x. (x - col_mean X j)\<^sup>2) (column X j))"
    by (rule sum_list_nonneg) auto
  then show ?thesis
    by (simp add: col_var_def mean_def)
qed

lemma col_scale_sq: "(col_scale X j)\<^sup>2 = col_scale_sq X j"
  by (simp add: col_scale_def col_scale_sq_def col_var_nonneg)

lemma euclidean_scaled:
  assumes "length a = length b"
  shows "euclidean (scale_row X a) (scale_row X b) = sqrt (scaled_sq_dist X a b)"
proof -
  have "map (\<lambda>(x, y). (x - y)\<^sup>2) (zip (scale_row X a) (scale_row X b))
      = map (\<lambda>j. (a ! j - b ! j)\<^sup>2 / col_scale_sq X j) [0..<length a]"
    unfolding scale_row_def assms [symmetric]
    by (simp add: zip_map_map zip_same_conv_map comp_def diff_divide_distrib [symmetric]
        power_divide col_scale_sq)
  then show ?thesis
    by (simp add: euclidean_def scaled_sq_dist_def)
qed

lemma sqrt_le_iff_sq: "0 \<le> eps \<Longrightarrow> (sqrt s \<le> eps) = (s \<le> eps\<^sup>2)"
proof -
  assume "0 \<le> eps"
  then have "sqrt (eps\<^sup>2) = eps"
    by simp
  then show ?thesis
    using real_sqrt_le_iff [of s "eps\<^sup>2"] by simp
qed

lemma exact_radius_neighbors_scaled:
  assumes "0 \<le> eps" "\<forall>r \<in> set X. length r = d"
  shows "exact_radius_neighbors eps (map (scale_row X) X)
     = map (\<lambda>a. filter (\<lambda>j. scaled_sq_dist X a (X ! j) \<le> eps\<^sup>2) [0..<length X]) X"
proof -
  have "\<And>a j. a \<in> set X \<Longrightarrow> j < length X \<Longrightarrow>
      (euclidean (scale_row X a) (map (scale_row X) X ! j) \<le> eps)
        = (scaled_sq_dist X a (X ! j) \<le> eps\<^sup>2)"
    using assms by (simp add: euclidean_scaled sqrt_le_iff_sq)
  then show ?thesis
    by (auto simp: exact_radius_neighbors_def comp_def intro!: filter_cong)
qed

lemma parse_timestamps_succeeds:
  "\<forall>a \<in> set as. \<exists>t. parse_timestamp L a = Inr t \<Longrightarrow>
   \<exists>ts. parse_timestamps L as = Inr ts \<and> length ts = length as"
  by (induction as) auto

lemma parse_timestamps_length:
  "parse_timestamps L as = Inr ts \<Longrightarrow> length ts = length as"
  by (induction as arbitrary: ts) (auto split: sum.splits)

lemma parse_timestamps_nth:
  "parse_timestamps L as = Inr ts \<Longrightarrow> i < length as \<Longrightarrow> parse_timestamp L (as ! i) = Inr (ts ! i)"
proof (induction as arbitrary: ts i)
  case Nil
  then show ?case by simp
next
  case (Cons a as)
  then show ?case
    by (cases i) (auto split: sum.splits)
qed

lemma parse_timestamps_indices:
  assumes "parse_timestamps L history = Inr hts" "\<forall>i \<in> set idx. i < length history"
  shows "parse_timestamps L (map (\<lambda>i. history ! i) idx) = Inr (map (\<lambda>i. hts ! i) idx)"
  using assms(2)
proof (induction idx)
  case Nil
  then show ?case by simp
next
  case (Cons i idx)
  then show ?case
    using parse_timestamps_nth [OF assms(1), of i] by simp
qed

lemma create_campaign_succeeds:
  assumes "parse_timestamps L attacks = Inr ts" "ts \<noteq> []" "same_awareness ts"
  shows "\<exists>c self'. create_campaign L self attacks ids = Inr (c, self')"
proof -
  obtain t ts' where "ts = t # ts'"
    using assms(2) by (cases ts) auto
  then show ?thesis
    using assms(1,3) by (simp add: create_campaign_def Let_def)
qed

lemma create_campaign_type_error:
  assumes "parse_timestamps L attacks = Inr ts" "ts \<noteq> []" "\<not> same_awareness ts"
  shows "create_campaign L self attacks ids = Inl TypeError"
proof -
  obtain t ts' where "ts = t # ts'"
    using assms(2) by (cases ts) auto
  then show ?thesis
    using assms(1,3) by (simp add: create_campaign_def Let_def)
qed

text \<open>
  Once every timestamp of a non-empty cluster has parsed, \<^verbatim>\<open>_create_campaign\<close> returns
  a campaign or fails with \<^verbatim>\<open>TypeError\<close>.
\<close>

lemma create_campaign_parsed:
  assumes "attacks \<noteq> []" "\<forall>a \<in> set attacks. \<exists>t. parse_timestamp L a = Inr t"
  shows "(\<exists>c self'. create_campaign L self attacks ids = Inr (c, self'))
         \<or> create_campaign L self attacks ids = Inl TypeError"
proof -
  obtain ts where ts: "parse_timestamps L attacks = Inr ts" "length ts = length attacks"
    using parse_timestamps_succeeds [OF assms(2)] by blast
  then have ne: "ts \<noteq> []"
    using assms(1) by auto
  show ?thesis
    using create_campaign_succeeds [OF ts(1) ne] create_campaign_type_error [OF ts(1) ne]
    by blast
qed

lemma same_awareness_const: "\<forall>t \<in> set ts. dt_aware t = b \<Longrightarrow> same_awareness ts"
  by (cases ts) (auto simp: same_awareness_def list_all_iff)

lemma create_campaign_aware:
  assumes "attacks \<noteq> []" "\<forall>a \<in> set attacks. \<exists>t. parse_timestamp L a = Inr t \<and> dt_aware t = b"
  shows "\<exists>c self'. create_campaign L self attacks ids = Inr (c, self')"
proof -
  have "\<forall>a \<in> set attacks. \<exists>t. parse_timestamp L a = Inr t"
    using assms(2) by blast
  then obtain ts where ts: "parse_timestamps L attacks = Inr ts" "length ts = length attacks"
    using parse_timestamps_succeeds by blast
  have "\<forall>t \<in> set ts. dt_aware t = b"
  proof
    fix t
    assume "t \<in> set ts"
    then obtain i where i: "i < length attacks" "t = ts ! i"
      using ts(2) by (auto simp: in_set_conv_nth)
    then have "parse_timestamp L (attacks ! i) = Inr t"
      using parse_timestamps_nth [OF ts(1)] by simp
    then show "dt_aware t = b"
      using assms(2) i(1) by (metis nth_mem sum.inject(2))
  qed
  then have "same_awareness ts"
    by (rule same_awareness_const)
  moreover have "ts \<noteq> []"
    using ts(2) assms(1) by auto
  ultimately show ?thesis
    using create_campaign_succeeds [OF ts(1)] by blast
qed

lemma indices_where_in_range: "i \<in> set (indices_where labels c) \<Longrightarrow> i < length labels"
  by (simp add: indices_where_def)

lemma indices_where_nonempty: "c \<in> set labels \<Longrightarrow> indices_where labels c \<noteq> []"
  by (auto simp: indices_where_def filter_empty_conv in_set_conv_nth)

lemma form_campaigns_succeeds:
  assumes "\<forall>a \<in> set history. \<exists>t. parse_timestamp L a = Inr t \<and> dt_aware t = b"
    and "length labels = length history"
  shows "set cids \<subseteq> set labels \<Longrightarrow>
    \<exists>cs self'. form_campaigns L history ids labels cids self = (Inr cs, self')"
proof (induction cids arbitrary: self)
  case Nil
  then show ?case by simp
next
  case (Cons cid cids)
  show ?case
  proof (cases "cid = -1")
    case True
    then show ?thesis
      using Cons by simp
  next
    case False
    let ?idx = "indices_where labels cid"
    have "map (\<lambda>i. history ! i) ?idx \<noteq> []"
      using indices_where_nonempty [of cid labels] Cons.prems by simp
    moreover have "\<forall>a \<in> set (map (\<lambda>i. history ! i) ?idx).
        \<exists>t. parse_timestamp L a = Inr t \<and> dt_aware t = b"
      using assms indices_where_in_range [of _ labels cid] by auto
    ultimately obtain c0 s0 where cc: "create_campaign L self (map (\<lambda>i. history ! i) ?idx)
        (map (\<lambda>i. ids ! i) ?idx) = Inr (c0, s0)"
      using create_campaign_aware by blast
    let ?s1 = "s0 \<lparr> attack_to_campaign :=
                       foldl (\<lambda>d a. dict_set d a (campaign_id c0))
                         (attack_to_campaign s0) (map (\<lambda>i. ids ! i) ?idx) \<rparr>"
    obtain cs' s' where "form_campaigns L history ids labels cids ?s1 = (Inr cs', s')"
      using Cons.IH [of ?s1] Cons.prems by auto
    then show ?thesis
      using False cc by (simp add: Let_def)
  qed
qed

lemma form_campaigns_attack_ids:
  "form_campaigns L history ids labels cids self = (Inr cs, self') \<Longrightarrow>
   map attack_ids cs
     = map (\<lambda>cid. map (\<lambda>i. ids ! i) (indices_where labels cid)) (filter (\<lambda>c. c \<noteq> -1) cids)"
proof (induction cids arbitrary: self cs)
  case Nil
  then show ?case by simp
next
  case (Cons cid cids)
  show ?case
  proof (cases "cid = -1")
    case True
    then show ?thesis
      using Cons by auto
  next
    case False
    let ?idx = "indices_where labels cid"
    obtain c0 s0 where cc: "create_campaign L self (map (\<lambda>i. history ! i) ?idx)
        (map (\<lambda>i. ids ! i) ?idx) = Inr (c0, s0)"
      using Cons.prems(1) False by (auto simp: Let_def split: sum.splits)
    let ?s1 = "s0 \<lparr> attack_to_campaign :=
                       foldl (\<lambda>d a. dict_set d a (campaign_id c0))
                         (attack_to_campaign s0) (map (\<lambda>i. ids ! i) ?idx) \<rparr>"
    obtain cs' where rest: "form_campaigns L history ids labels cids ?s1 = (Inr cs', self')"
      and cs: "cs = c0 # cs'"
      using Cons.prems(1) False cc by (auto simp: Let_def split: sum.splits prod.splits)
    show ?thesis
      using Cons.IH [OF rest] create_campaign_result(1) [OF cc] cs False by simp
  qed
qed

lemma extract_features_parses:
  "extract_features L history = Inr X \<Longrightarrow>
   length X = length history \<and> (\<forall>a \<in> set history. \<exists>t. parse_timestamp L a = Inr t)"
  by (induction history arbitrary: X)
     (auto simp: create_attack_features_def split: sum.splits)

lemma parse_timestamp_cong:
  "fromisoformat L2 = fromisoformat L \<Longrightarrow> parse_timestamp L2 a = parse_timestamp L a"
  by (simp add: parse_timestamp_def)

lemma parse_timestamps_cong:
  assumes "fromisoformat L2 = fromisoformat L"
  shows "parse_timestamps L2 as = parse_timestamps L as"
  by (induction as) (simp_all add: parse_timestamp_cong [OF assms] split: sum.splits)

lemma extract_features_cong:
  assumes "fromisoformat L2 = fromisoformat L"
  shows "extract_features L2 as = extract_features L as"
  by (induction as)
     (simp_all add: create_attack_features_def parse_timestamp_cong [OF assms] split: sum.splits)

lemma dbscan_loop_length: "length (dbscan_loop C N idx l lab) = length lab"
  by (induction idx arbitrary: l lab) (simp_all add: dfs_length)

lemma fit_predict_length: "fit_predict L eps m X = Inr labels \<Longrightarrow> length labels = length X"
  by (auto simp: fit_predict_def dbscan_inner_def Let_def dbscan_loop_length split: if_splits)

text \<open>
  A run on a non-empty batch whose timestamps all parse, with a valid
  \<open>min_attacks_per_campaign\<close>, gets as far as the loop over the clusters.
\<close>

lemma detect_campaigns_unfold:
  assumes "extract_features L history = Inr X" "history \<noteq> []" "1 \<le> m" "m \<le> int (length history)"
  shows "\<exists>labels.
      fit_predict L 0.5 m (map (scale_row X) X) = Inr labels
    \<and> length labels = length history
    \<and> detect_campaigns L self history m
        = form_campaigns L history (map attack_id history) labels (cluster_ids labels) self"
proof -
  have X: "X \<noteq> []" "length X = length history"
    using extract_features_parses [OF assms(1)] assms(2) by auto
  obtain labels where labels: "fit_predict L 0.5 m (map (scale_row X) X) = Inr labels"
    using assms(3) by (simp add: fit_predict_def Let_def)
  have len: "length labels = length history"
    using fit_predict_length [OF labels] X(2) by simp
  have "detect_campaigns L self history m
        = form_campaigns L history (map attack_id history) labels (cluster_ids labels) self"
    using assms(1,4) X(1) labels by (simp add: detect_campaigns_def fit_transform_def)
  then show ?thesis
    using labels len by blast
qed

lemma detect_campaigns_run:
  assumes "extract_features L history = Inr X" "history \<noteq> []" "1 \<le> m" "m \<le> int (length history)"
    and "\<forall>a \<in> set history. \<exists>t. parse_timestamp L a = Inr t \<and> dt_aware t = b"
  shows "\<exists>labels cs self'.
      fit_predict L 0.5 m (map (scale_row X) X) = Inr labels
    \<and> detect_campaigns L self history m = (Inr cs, self')
    \<and> map attack_ids cs = map (\<lambda>cid. map (\<lambda>i. map attack_id history ! i) (indices_where labels cid))
                             (filter (\<lambda>c. c \<noteq> -1) (cluster_ids labels))"
proof -
  obtain labels where labels: "fit_predict L 0.5 m (map (scale_row X) X) = Inr labels"
    "length labels = length history"
    "detect_campaigns L self history m
        = form_campaigns L history (map attack_id history) labels (cluster_ids labels) self"
    using detect_campaigns_unfold [OF assms(1,2,3,4)] by blast
  obtain cs self' where form:
    "form_campaigns L history (map attack_id history) labels (cluster_ids labels) self = (Inr cs, self')"
    using form_campaigns_succeeds [OF assms(5) labels(2), of "cluster_ids labels"]
      cluster_ids_set by blast
  then show ?thesis
    using labels form_campaigns_attack_ids [OF form] by auto
qed

lemma extract_features_identical:
  "\<forall>a \<in> set history. create_attack_features L a = Inr f \<Longrightarrow>
   extract_features L history = Inr (replicate (length history) (feature_vector f))"
  by (induction history) auto

lemma mean_replicate: "0 < n \<Longrightarrow> mean (replicate n x) = x"
  by (simp add: mean_def sum_list_replicate)

lemma scale_row_identical:
  assumes "0 < n"
  shows "scale_row (replicate n r) r = replicate (length r) 0"
proof -
  have col: "\<And>j. column (replicate n r) j = replicate n (r ! j)"
    by (simp add: column_def)
  have "\<And>j. col_mean (replicate n r) j = r ! j"
    using assms by (simp add: col_mean_def col mean_replicate)
  then show ?thesis
    by (simp add: scale_row_def map_replicate_const)
qed

lemma exact_radius_neighbors_identical:
  assumes "0 \<le> eps"
  shows "exact_radius_neighbors eps (replicate n z) = replicate n [0..<n]"
proof -
  have "filter (\<lambda>j. euclidean z (replicate n z ! j) \<le> eps) [0..<n] = [0..<n]"
    using assms by (simp add: euclidean_refl)
  then show ?thesis
    by (simp add: exact_radius_neighbors_def)
qed

lemma exact_library_complete:
  "complete_neighborhoods (radius_neighbors (exact_library parser) 0.5 (replicate n z)) n"
  by (simp add: exact_library_def exact_radius_neighbors_identical complete_neighborhoods_def
      atLeast0LessThan)

lemma dbscan_loop_all_labelled:
  "\<forall>i \<in> set idx. lab ! i \<noteq> -1 \<Longrightarrow> dbscan_loop C N idx l lab = lab"
  by (induction idx arbitrary: l) simp_all

lemma dbscan_inner_complete:
  assumes "0 < n" "C ! 0" "set (N ! 0) = {..<n}"
  shows "dbscan_inner C N (replicate n (-1)) = replicate n 0"
proof -
  let ?L = "replicate n (-1 :: int)"
  let ?R = "dfs C N 0 0 [] ?L"
  have lenR: "length ?R = n"
    by (simp add: dfs_length)
  have R0: "?R ! 0 \<noteq> -1"
    using dfs_labels_stack [of 0 0 "[]" ?L C N 0] assms(1) by simp
  have "\<And>w. w < n \<Longrightarrow> ?R ! w = 0"
  proof -
    fix w
    assume w: "w < n"
    have "?R ! w \<noteq> -1"
      using dfs_closed [of 0 ?L C N 0 0 "[]" w] assms w R0 by simp
    then show "?R ! w = 0"
      using dfs_new_label [of w ?L C N 0 0 "[]"] w by simp
  qed
  then have R: "?R = replicate n 0"
    using lenR by (simp add: list_eq_iff_nth_eq)
  have "[0..<n] = 0 # [1..<n]"
    using assms(1) by (simp add: upt_rec)
  then have "dbscan_loop C N [0..<n] 0 ?L = dbscan_loop C N [1..<n] 1 ?R"
    using assms(1,2) by simp
  also have "\<dots> = ?R"
    unfolding R by (rule dbscan_loop_all_labelled) simp
  finally show ?thesis
    by (simp add: dbscan_inner_def R)
qed

lemma remdups_replicate_const: "remdups (replicate n x) = (if n = 0 then [] else [x])"
  by (induction n) auto

lemma fit_predict_complete:
  assumes "0 < n" "1 \<le> m" "m \<le> int n" "length X = n"
    and "complete_neighborhoods (radius_neighbors L eps X) n"
  shows "fit_predict L eps m X = Inr (replicate n 0)"
proof -
  let ?N = "radius_neighbors L eps X"
  have N: "length ?N = n" "set (?N ! 0) = {..<n}"
    using assms(1,5) by (simp_all add: complete_neighborhoods_def)
  have "card (set (?N ! 0)) \<le> length (?N ! 0)"
    by (rule card_length)
  then have "m \<le> int (length (?N ! 0))"
    using N(2) assms(3) by simp
  then have core: "map (\<lambda>nb. m \<le> int (length nb)) ?N ! 0"
    using N(1) assms(1) by simp
  show ?thesis
    unfolding fit_predict_def Let_def
    using assms(2,4) dbscan_inner_complete [OF assms(1) core N(2)] by simp
qed

text \<open>
  A batch of identical feature vectors, when the library reports every point as a
  neighbour of every point: the scaled matrix is zero, there is one cluster, and the run
  is one call of \<^verbatim>\<open>_create_campaign\<close> on the whole batch.
\<close>

lemma identical_batch_scaled:
  assumes "history \<noteq> []"
  shows "fit_transform (replicate (length history) (feature_vector f))
        = Inr (replicate (length history) (replicate 8 0))"
proof -
  have n: "0 < length history"
    using assms by simp
  have len8: "length (feature_vector f) = 8"
    by (simp add: feature_vector_def)
  show ?thesis
    using scale_row_identical [OF n, of "feature_vector f"] len8 n
    by (simp add: fit_transform_def)
qed

lemma identical_batch_detect:
  assumes "history \<noteq> []" "1 \<le> m" "m \<le> int (length history)"
    and "\<forall>a \<in> set history. create_attack_features L a = Inr f"
    and "complete_neighborhoods
           (radius_neighbors L 0.5 (replicate (length history) (replicate 8 0))) (length history)"
  shows "detect_campaigns L self history m
     = (case create_campaign L self history (map attack_id history) of
          Inl e \<Rightarrow> (Inl e, self)
        | Inr (c, s0) \<Rightarrow>
            (Inr [c], s0 \<lparr> attack_to_campaign :=
                       foldl (\<lambda>d a. dict_set d a (campaign_id c))
                         (attack_to_campaign s0) (map attack_id history) \<rparr>))"
proof -
  let ?n = "length history"
  let ?X = "replicate ?n (feature_vector f)"
  have n: "0 < ?n"
    using assms(1) by simp
  have X: "extract_features L history = Inr ?X"
    using extract_features_identical [OF assms(4)] .
  have scaled: "fit_transform ?X = Inr (replicate ?n (replicate 8 0))"
    using identical_batch_scaled [OF assms(1)] .
  have labels: "fit_predict L 0.5 m (replicate ?n (replicate 8 0)) = Inr (replicate ?n 0)"
    by (rule fit_predict_complete [OF n assms(2,3) _ assms(5)]) simp
  have cids: "cluster_ids (replicate ?n 0) = [0]"
    using n unfolding cluster_ids_def by (simp add: remdups_replicate_const)
  have idx: "indices_where (replicate ?n 0) 0 = [0..<?n]"
    unfolding indices_where_def by (simp add: filter_id_conv)
  have hist: "map (\<lambda>i. history ! i) [0..<?n] = history"
    by (rule map_nth)
  have ids: "map (\<lambda>i. map attack_id history ! i) [0..<?n] = map attack_id history"
    using map_nth [of "map attack_id history"] by simp
  have "detect_campaigns L self history m
      = form_campaigns L history (map attack_id history) (replicate ?n 0) [0] self"
    using assms(3) X scaled labels cids by (simp add: detect_campaigns_def)
  also have "\<dots> = (case create_campaign L self history (map attack_id history) of
          Inl e \<Rightarrow> (Inl e, self)
        | Inr (c, s0) \<Rightarrow>
            (Inr [c], s0 \<lparr> attack_to_campaign :=
                       foldl (\<lambda>d a. dict_set d a (campaign_id c))
                         (attack_to_campaign s0) (map attack_id history) \<rparr>))"
    by (simp add: idx hist ids Let_def split: sum.splits)
  finally show ?thesis .
qed

lemma identical_batch_campaign:
  assumes "history \<noteq> []" "1 \<le> m" "m \<le> int (length history)"
    and "\<forall>a \<in> set history. create_attack_features L a = Inr f"
    and "complete_neighborhoods
           (radius_neighbors L 0.5 (replicate (length history) (replicate 8 0))) (length history)"
    and "parse_timestamps L history = Inr ts" "same_awareness ts"
  shows "\<exists>c s0 self'. detect_campaigns L self history m = (Inr [c], self')
           \<and> create_campaign L self history (map attack_id history) = Inr (c, s0)
           \<and> attack_ids c = map attack_id history \<and> num_attacks c = length history"
proof -
  have "ts \<noteq> []"
    using parse_timestamps_length [OF assms(6)] assms(1) by auto
  then obtain c s0 where
    cc: "create_campaign L self history (map attack_id history) = Inr (c, s0)"
    using create_campaign_succeeds [OF assms(6) _ assms(7)] by blast
  then show ?thesis
    using identical_batch_detect [OF assms(1,2,3,4,5), of self] create_campaign_result(1,2) [OF cc]
    by simp
qed

lemma identical_batch_type_error:
  assumes "history \<noteq> []" "1 \<le> m" "m \<le> int (length history)"
    and "\<forall>a \<in> set history. create_attack_features L a = Inr f"
    and "complete_neighborhoods
           (radius_neighbors L 0.5 (replicate (length history) (replicate 8 0))) (length history)"
    and "parse_timestamps L history = Inr ts" "\<not> same_awareness ts"
  shows "detect_campaigns L self history m = (Inl TypeError, self)"
proof -
  have "ts \<noteq> []"
    using parse_timestamps_length [OF assms(6)] assms(1) by auto
  then have "create_campaign L self history (map attack_id history) = Inl TypeError"
    using create_campaign_type_error [OF assms(6) _ assms(7)] by blast
  then show ?thesis
    using identical_batch_detect [OF assms(1,2,3,4,5), of self] by simp
qed

section \<open>The example data, evaluated\<close>

lemma sample_features:
  "create_attack_features sample_library (sample_attack name n)
    = Inr \<lparr> hour = 0, day = 0, country_code = 3, attack_type_code = 1, intensity_feature = n,
            target_country_code = 4, lat = 45, lng = 90 \<rparr>"
  by (simp add: create_attack_features_def parse_timestamp_def sample_library_def exact_library_def sample_fromisoformat_def
      sample_attack_def sample_attack_at_def replace_Z_def country_to_code_def country_codes_def
      attack_type_to_code_def type_codes_def)

lemma sample_parse:
  "parse_timestamp sample_library (sample_attack name n) = Inr (at_second 1704067200)"
  by (simp add: parse_timestamp_def sample_library_def exact_library_def sample_fromisoformat_def
      sample_attack_def sample_attack_at_def replace_Z_def at_second_def)

lemma sample_radius: "radius_neighbors sample_library = exact_radius_neighbors"
  by (simp add: sample_library_def exact_library_def)

lemma border_features: "extract_features sample_library border_batch = Inr border_matrix"
  by (simp add: border_batch_def border_matrix_def border_row_def sample_features feature_vector_def)

lemma border_aware:
  "\<forall>a \<in> set border_batch. \<exists>t. parse_timestamp sample_library a = Inr t \<and> dt_aware t = True"
  by (simp add: border_batch_def sample_parse at_second_def)

lemma border_scale_sq:
  "map (col_scale_sq border_matrix) [0..<8] = [1, 1, 1, 1, 50 / 9, 1, 1, 1]"
  by (simp add: col_scale_sq_def col_var_def col_mean_def column_def mean_def border_matrix_def
      border_row_def upt_rec [of _ 8] eval_nat_numeral)

lemma border_sq_dist:
  "scaled_sq_dist border_matrix (border_row x) (border_row y) = (x - y)\<^sup>2 * 9 / 50"
proof -
  let ?a = "border_row x" and ?b = "border_row y"
  have "map (\<lambda>j. (?a ! j - ?b ! j)\<^sup>2 / (map (col_scale_sq border_matrix) [0..<8] ! j)) [0..<8]
      = [0, 0, 0, 0, (x - y)\<^sup>2 * 9 / 50, 0, 0, 0]"
    unfolding border_scale_sq by (simp add: border_row_def upt_rec [of _ 8] eval_nat_numeral)
  moreover have "map (\<lambda>j. (?a ! j - ?b ! j)\<^sup>2 / (map (col_scale_sq border_matrix) [0..<8] ! j)) [0..<8]
      = map (\<lambda>j. (?a ! j - ?b ! j)\<^sup>2 / col_scale_sq border_matrix j) [0..<8]"
    by (rule map_cong) simp_all
  ultimately have terms: "map (\<lambda>j. (?a ! j - ?b ! j)\<^sup>2 / col_scale_sq border_matrix j) [0..<8]
      = [0, 0, 0, 0, (x - y)\<^sup>2 * 9 / 50, 0, 0, 0]"
    by simp
  have len: "length (border_row x) = 8"
    by (simp add: border_row_def)
  show ?thesis
    unfolding scaled_sq_dist_def len terms by simp
qed

lemma neighbors_from_dist:
  assumes "\<And>x y. D (row x) (row y) = (x - y)\<^sup>2 * 9 / (50 :: real)"
  shows "map (\<lambda>a. filter (\<lambda>j. D a (map row [4, 3, 3, 5, 6, 7, 7, 9, 1] ! j) \<le> 0.5\<^sup>2) [0..<9])
           (map row [4, 3, 3, 5, 6, 7, 7, 9, 1])
    = [[0, 1, 2, 3], [0, 1, 2], [0, 1, 2], [0, 3, 4], [3, 4, 5, 6], [4, 5, 6], [4, 5, 6], [7], [8]]"
  by (simp add: assms upt_rec [of _ 9] eval_nat_numeral power2_eq_square)

lemma border_neighbors:
  "exact_radius_neighbors 0.5 (map (scale_row border_matrix) border_matrix)
    = [[0, 1, 2, 3], [0, 1, 2], [0, 1, 2], [0, 3, 4], [3, 4, 5, 6], [4, 5, 6], [4, 5, 6], [7], [8]]"
proof -
  have "\<forall>r \<in> set border_matrix. length r = 8"
    by (simp add: border_matrix_def border_row_def)
  then have "exact_radius_neighbors 0.5 (map (scale_row border_matrix) border_matrix)
     = map (\<lambda>a. filter (\<lambda>j. scaled_sq_dist border_matrix a (border_matrix ! j) \<le> 0.5\<^sup>2)
              [0..<length border_matrix]) border_matrix"
    using exact_radius_neighbors_scaled [of "0.5" border_matrix 8] by simp
  also have "length border_matrix = 9"
    by (simp add: border_matrix_def)
  also have "map (\<lambda>a. filter (\<lambda>j. scaled_sq_dist border_matrix a (border_matrix ! j) \<le> 0.5\<^sup>2)
              [0..<9]) border_matrix
     = map (\<lambda>a. filter (\<lambda>j. scaled_sq_dist border_matrix a
              (map border_row [4, 3, 3, 5, 6, 7, 7, 9, 1] ! j) \<le> 0.5\<^sup>2) [0..<9])
           (map border_row [4, 3, 3, 5, 6, 7, 7, 9, 1])"
    by (simp only: border_matrix_def [symmetric])
  also have "\<dots> = [[0, 1, 2, 3], [0, 1, 2], [0, 1, 2], [0, 3, 4], [3, 4, 5, 6], [4, 5, 6], [4, 5, 6], [7], [8]]"
    by (rule neighbors_from_dist) (rule border_sq_dist)
  finally show ?thesis .
qed

lemma border_dbscan:
  "dbscan_inner [True, False, False, False, True, False, False, False, False]
     [[0, 1, 2, 3], [0, 1, 2], [0, 1, 2], [0, 3, 4], [3, 4, 5, 6], [4, 5, 6], [4, 5, 6], [7], [8]]
     [-1, -1, -1, -1, -1, -1, -1, -1, -1]
   = [0, 0, 0, 0, 1, 1, 1, -1, -1]"
  by code_simp

lemma border_labels:
  "fit_predict sample_library 0.5 4 (map (scale_row border_matrix) border_matrix)
     = Inr [0, 0, 0, 0, 1, 1, 1, -1, -1]"
proof -
  have "length border_matrix = 9"
    by (simp add: border_matrix_def)
  then have "replicate (length (map (scale_row border_matrix) border_matrix)) (-1 :: int)
     = [-1, -1, -1, -1, -1, -1, -1, -1, -1]"
    by (simp add: eval_nat_numeral)
  then show ?thesis
    unfolding fit_predict_def Let_def sample_radius border_neighbors
    using border_dbscan by simp
qed

lemma border_members:
  "map (\<lambda>cid. map (\<lambda>i. map attack_id border_batch ! i)
                  (indices_where [0, 0, 0, 0, 1, 1, 1, -1, -1] cid))
       (filter (\<lambda>c. c \<noteq> -1) (cluster_ids [0, 0, 0, 0, 1, 1, 1, -1, -1]))
   = [[''a0'', ''a1'', ''a2'', ''a3''], [''a4'', ''a5'', ''a6'']]"
  by (simp add: cluster_ids_def indices_where_def border_batch_def sample_attack_def sample_attack_at_def
      upt_rec [of _ 9] eval_nat_numeral)

text \<open>
  The nine attacks of \<open>tie_batch\<close> with the library that decides a tie one way only.
\<close>

lemma tie_features: "extract_features one_sided_library tie_batch = Inr tie_matrix"
proof -
  have "fromisoformat one_sided_library = fromisoformat sample_library"
    by (simp add: one_sided_library_def)
  then have "extract_features one_sided_library tie_batch = extract_features sample_library tie_batch"
    by (rule extract_features_cong)
  then show ?thesis
    by (simp add: tie_batch_def tie_matrix_def border_row_def sample_features feature_vector_def)
qed

lemma tie_aware:
  "\<forall>a \<in> set tie_batch. \<exists>t. parse_timestamp one_sided_library a = Inr t \<and> dt_aware t = True"
proof -
  have "fromisoformat one_sided_library = fromisoformat sample_library"
    by (simp add: one_sided_library_def)
  then have "parse_timestamp one_sided_library a = parse_timestamp sample_library a" for a
    by (rule parse_timestamp_cong)
  then show ?thesis
    by (simp add: tie_batch_def sample_parse at_second_def)
qed

lemma tie_scale_sq:
  "map (col_scale_sq tie_matrix) [0..<8] = [1, 1, 1, 1, 4, 1, 1, 1]"
  by (simp add: col_scale_sq_def col_var_def col_mean_def column_def mean_def tie_matrix_def
      border_row_def upt_rec [of _ 8] eval_nat_numeral)

lemma tie_sq_dist:
  "scaled_sq_dist tie_matrix (border_row x) (border_row y) = (x - y)\<^sup>2 / 4"
proof -
  let ?a = "border_row x" and ?b = "border_row y"
  have "map (\<lambda>j. (?a ! j - ?b ! j)\<^sup>2 / (map (col_scale_sq tie_matrix) [0..<8] ! j)) [0..<8]
      = [0, 0, 0, 0, (x - y)\<^sup>2 / 4, 0, 0, 0]"
    unfolding tie_scale_sq by (simp add: border_row_def upt_rec [of _ 8] eval_nat_numeral)
  moreover have "map (\<lambda>j. (?a ! j - ?b ! j)\<^sup>2 / (map (col_scale_sq tie_matrix) [0..<8] ! j)) [0..<8]
      = map (\<lambda>j. (?a ! j - ?b ! j)\<^sup>2 / col_scale_sq tie_matrix j) [0..<8]"
    by (rule map_cong) simp_all
  ultimately have terms: "map (\<lambda>j. (?a ! j - ?b ! j)\<^sup>2 / col_scale_sq tie_matrix j) [0..<8]
      = [0, 0, 0, 0, (x - y)\<^sup>2 / 4, 0, 0, 0]"
    by simp
  have len: "length (border_row x) = 8"
    by (simp add: border_row_def)
  show ?thesis
    unfolding scaled_sq_dist_def len terms by simp
qed

lemma tie_neighbors_from_dist:
  assumes "\<And>x y. D (row x) (row y) = (x - y)\<^sup>2 / (4 :: real)"
  shows "map (\<lambda>a. filter (\<lambda>j. D a (map row [2, 2, 2, 3, 5, 5, 6, 7, 7] ! j) \<le> 0.5\<^sup>2) [0..<9])
           (map row [2, 2, 2, 3, 5, 5, 6, 7, 7])
    = [[0, 1, 2, 3], [0, 1, 2, 3], [0, 1, 2, 3], [0, 1, 2, 3], [4, 5, 6], [4, 5, 6],
       [4, 5, 6, 7, 8], [6, 7, 8], [6, 7, 8]]"
  by (simp add: assms upt_rec [of _ 9] eval_nat_numeral power2_eq_square)

lemma tie_exact_neighbors:
  "exact_radius_neighbors 0.5 (map (scale_row tie_matrix) tie_matrix)
    = [[0, 1, 2, 3], [0, 1, 2, 3], [0, 1, 2, 3], [0, 1, 2, 3], [4, 5, 6], [4, 5, 6],
       [4, 5, 6, 7, 8], [6, 7, 8], [6, 7, 8]]"
proof -
  have "\<forall>r \<in> set tie_matrix. length r = 8"
    by (simp add: tie_matrix_def border_row_def)
  then have "exact_radius_neighbors 0.5 (map (scale_row tie_matrix) tie_matrix)
     = map (\<lambda>a. filter (\<lambda>j. scaled_sq_dist tie_matrix a (tie_matrix ! j) \<le> 0.5\<^sup>2)
              [0..<length tie_matrix]) tie_matrix"
    using exact_radius_neighbors_scaled [of "0.5" tie_matrix 8] by simp
  also have "length tie_matrix = 9"
    by (simp add: tie_matrix_def)
  also have "map (\<lambda>a. filter (\<lambda>j. scaled_sq_dist tie_matrix a (tie_matrix ! j) \<le> 0.5\<^sup>2)
              [0..<9]) tie_matrix
     = map (\<lambda>a. filter (\<lambda>j. scaled_sq_dist tie_matrix a
              (map border_row [2, 2, 2, 3, 5, 5, 6, 7, 7] ! j) \<le> 0.5\<^sup>2) [0..<9])
           (map border_row [2, 2, 2, 3, 5, 5, 6, 7, 7])"
    by (simp only: tie_matrix_def [symmetric])
  also have "\<dots> = [[0, 1, 2, 3], [0, 1, 2, 3], [0, 1, 2, 3], [0, 1, 2, 3], [4, 5, 6], [4, 5, 6],
       [4, 5, 6, 7, 8], [6, 7, 8], [6, 7, 8]]"
    by (rule tie_neighbors_from_dist) (rule tie_sq_dist)
  finally show ?thesis .
qed

lemma tie_one_sided_neighbors:
  "radius_neighbors one_sided_library 0.5 (map (scale_row tie_matrix) tie_matrix)
    = [[0, 1, 2], [0, 1, 2], [0, 1, 2], [0, 1, 2, 3], [4, 5, 6], [4, 5, 6],
       [4, 5, 6, 7, 8], [6, 7, 8], [6, 7, 8]]"
proof -
  have eq: "radius_neighbors one_sided_library eps X
      = map (\<lambda>(i, nb). if i < 3 then filter (\<lambda>j. j \<noteq> 3) nb else nb)
           (enumerate 0 (exact_radius_neighbors eps X))" for eps X
    by (simp add: one_sided_library_def)
  show ?thesis
    unfolding eq tie_exact_neighbors by simp
qed

text \<open>The tie: the first and the fourth point are at distance exactly 0.5 after scaling.\<close>

lemma tie_distance:
  "euclidean (map (scale_row tie_matrix) tie_matrix ! 0) (map (scale_row tie_matrix) tie_matrix ! 3)
     = 0.5"
proof -
  have "map (scale_row tie_matrix) tie_matrix ! 0 = scale_row tie_matrix (border_row 2)"
    "map (scale_row tie_matrix) tie_matrix ! 3 = scale_row tie_matrix (border_row 3)"
    by (simp_all add: tie_matrix_def)
  moreover have "length (border_row 2) = length (border_row 3)"
    by (simp add: border_row_def)
  ultimately have "euclidean (map (scale_row tie_matrix) tie_matrix ! 0)
      (map (scale_row tie_matrix) tie_matrix ! 3) = sqrt ((2 - 3)\<^sup>2 / 4)"
    by (simp only: euclidean_scaled tie_sq_dist)
  also have "\<dots> = 0.5"
    by (simp add: real_sqrt_divide)
  finally show ?thesis .
qed

lemma tie_dbscan:
  "dbscan_inner [True, True, True, True, True, True, True, True, True]
     [[0, 1, 2], [0, 1, 2], [0, 1, 2], [0, 1, 2, 3], [4, 5, 6], [4, 5, 6],
       [4, 5, 6, 7, 8], [6, 7, 8], [6, 7, 8]]
     [-1, -1, -1, -1, -1, -1, -1, -1, -1]
   = [0, 0, 0, 1, 2, 2, 2, 2, 2]"
  by code_simp

lemma tie_labels:
  "fit_predict one_sided_library 0.5 3 (map (scale_row tie_matrix) tie_matrix)
     = Inr [0, 0, 0, 1, 2, 2, 2, 2, 2]"
proof -
  have "length tie_matrix = 9"
    by (simp add: tie_matrix_def)
  then have "replicate (length (map (scale_row tie_matrix) tie_matrix)) (-1 :: int)
     = [-1, -1, -1, -1, -1, -1, -1, -1, -1]"
    by (simp add: eval_nat_numeral)
  then show ?thesis
    unfolding fit_predict_def Let_def tie_one_sided_neighbors
    using tie_dbscan by simp
qed

lemma tie_members:
  "map (\<lambda>cid. map (\<lambda>i. map attack_id tie_batch ! i)
                  (indices_where [0, 0, 0, 1, 2, 2, 2, 2, 2] cid))
       (filter (\<lambda>c. c \<noteq> -1) (cluster_ids [0, 0, 0, 1, 2, 2, 2, 2, 2]))
   = [[''t0'', ''t1'', ''t2''], [''t3''], [''t4'', ''t5'', ''t6'', ''t7'', ''t8'']]"
  by (simp add: cluster_ids_def indices_where_def tie_batch_def sample_attack_def sample_attack_at_def
      upt_rec [of _ 9] eval_nat_numeral)

lemma tie_run:
  "map_sum id (map attack_ids) (fst (detect_campaigns one_sided_library self tie_batch 3))
     = Inr [[''t0'', ''t1'', ''t2''], [''t3''], [''t4'', ''t5'', ''t6'', ''t7'', ''t8'']]"
proof -
  have "tie_batch \<noteq> []" "3 \<le> int (length tie_batch)"
    by (simp_all add: tie_batch_def)
  then obtain labels cs self' where
    run: "fit_predict one_sided_library 0.5 3 (map (scale_row tie_matrix) tie_matrix) = Inr labels"
      "detect_campaigns one_sided_library self tie_batch 3 = (Inr cs, self')"
      "map attack_ids cs = map (\<lambda>cid. map (\<lambda>i. map attack_id tie_batch ! i) (indices_where labels cid))
                             (filter (\<lambda>c. c \<noteq> -1) (cluster_ids labels))"
    using detect_campaigns_run [OF tie_features _ _ _ tie_aware, of 3 self] by auto
  have "labels = [0, 0, 0, 1, 2, 2, 2, 2, 2]"
    using run(1) tie_labels by simp
  then have "map attack_ids cs = [[''t0'', ''t1'', ''t2''], [''t3''], [''t4'', ''t5'', ''t6'', ''t7'', ''t8'']]"
    using run(3) tie_members by simp
  then show ?thesis
    using run(2) by simp
qed

lemma uniform_features:
  "\<forall>a \<in> set uniform_batch. create_attack_features sample_library a
     = Inr \<lparr> hour = 0, day = 0, country_code = 3, attack_type_code = 1, intensity_feature = 9,
             target_country_code = 4, lat = 45, lng = 90 \<rparr>"
  by (simp add: uniform_batch_def sample_features)

lemma uniform_ids:
  "map attack_id uniform_batch = [''b0'', ''b1'', ''b2'']" "length uniform_batch = 3"
  by (simp_all add: uniform_batch_def sample_attack_def sample_attack_at_def)

lemma uniform_timestamps:
  "parse_timestamps sample_library uniform_batch = Inr (replicate 3 (at_second 1704067200))"
  by (simp add: uniform_batch_def sample_parse eval_nat_numeral)

lemma uniform_batch_run:
  "\<exists>c self'. detect_campaigns sample_library self uniform_batch 3 = (Inr [c], self')
      \<and> attack_ids c = [''b0'', ''b1'', ''b2''] \<and> num_attacks c = 3"
proof -
  have a: "uniform_batch \<noteq> []" "(1::int) \<le> 3" "3 \<le> int (length uniform_batch)"
    by (simp_all add: uniform_batch_def)
  have c: "complete_neighborhoods
      (radius_neighbors sample_library 0.5 (replicate (length uniform_batch) (replicate 8 0)))
      (length uniform_batch)"
    unfolding sample_library_def by (rule exact_library_complete)
  have s: "same_awareness (replicate 3 (at_second 1704067200))"
    by (rule same_awareness_const [of _ True]) (simp add: at_second_def)
  show ?thesis
    using identical_batch_campaign [OF a uniform_features c uniform_timestamps s, of self]
    unfolding uniform_ids by blast
qed

text \<open>
  The nine attacks of \<open>border_batch\<close> with \<open>min_attacks_per_campaign = 4\<close>: two
  campaigns, of four and of three members.
\<close>

lemma border_run:
  "map_sum id (map attack_ids) (fst (detect_campaigns sample_library self border_batch 4))
     = Inr [[''a0'', ''a1'', ''a2'', ''a3''], [''a4'', ''a5'', ''a6'']]"
proof -
  have "border_batch \<noteq> []" "4 \<le> int (length border_batch)"
    by (simp_all add: border_batch_def)
  then obtain labels cs self' where
    run: "fit_predict sample_library 0.5 4 (map (scale_row border_matrix) border_matrix) = Inr labels"
      "detect_campaigns sample_library self border_batch 4 = (Inr cs, self')"
      "map attack_ids cs = map (\<lambda>cid. map (\<lambda>i. map attack_id border_batch ! i) (indices_where labels cid))
                             (filter (\<lambda>c. c \<noteq> -1) (cluster_ids labels))"
    using detect_campaigns_run [OF border_features _ _ _ border_aware, of 4 self] by auto
  have "labels = [0, 0, 0, 0, 1, 1, 1, -1, -1]"
    using run(1) border_labels by simp
  then have "map attack_ids cs = [[''a0'', ''a1'', ''a2'', ''a3''], [''a4'', ''a5'', ''a6'']]"
    using run(3) border_members by simp
  then show ?thesis
    using run(2) by simp
qed

section \<open>The claims about clustering\<close>

lemma mixed_features:
  "\<forall>a \<in> set mixed_batch. create_attack_features sample_library a
     = Inr \<lparr> hour = 0, day = 0, country_code = 3, attack_type_code = 1, intensity_feature = 9,
             target_country_code = 4, lat = 45, lng = 90 \<rparr>"
  by (simp add: mixed_batch_def create_attack_features_def parse_timestamp_def
      sample_library_def exact_library_def sample_fromisoformat_def sample_attack_at_def
      replace_Z_def country_to_code_def country_codes_def attack_type_to_code_def type_codes_def)

lemma mixed_timestamps:
  "parse_timestamps sample_library mixed_batch
     = Inr [at_second 1704067200, at_second 1704067200 \<lparr> dt_aware := False \<rparr>,
            at_second 1704067200]"
  by (simp add: mixed_batch_def parse_timestamp_def sample_library_def exact_library_def
      sample_fromisoformat_def sample_attack_at_def replace_Z_def at_second_def)

lemma mixed_batch_run:
  "detect_campaigns sample_library self mixed_batch 3 = (Inl TypeError, self)"
proof -
  have a: "mixed_batch \<noteq> []" "(1::int) \<le> 3" "3 \<le> int (length mixed_batch)"
    by (simp_all add: mixed_batch_def)
  have c: "complete_neighborhoods
      (radius_neighbors sample_library 0.5 (replicate (length mixed_batch) (replicate 8 0)))
      (length mixed_batch)"
    unfolding sample_library_def by (rule exact_library_complete)
  have s: "\<not> same_awareness [at_second 1704067200, at_second 1704067200 \<lparr> dt_aware := False \<rparr>,
            at_second 1704067200]"
    by (simp add: same_awareness_def at_second_def)
  show ?thesis
    using identical_batch_type_error [OF a mixed_features c mixed_timestamps s, of self] .
qed

text \<open>
  C4 (as amended). Every campaign of a detection run has at least one member id, and its
  \<^verbatim>\<open>num_attacks\<close> is the number of its member ids. When \<open>min_cluster_size\<close> is at most
  3, as with the default 3 that the endpoint uses, and the neighbourhoods that the library
  has computed for the scaled matrix of the run are symmetric (no repetitions, within
  range, each holding its own point), every campaign has at least \<open>min_cluster_size\<close>
  member ids: a neighbour of a core sample that an earlier cluster has already taken
  would itself have three neighbours and so be a core sample.
\<close>

theorem campaign_size_at_least_min:
  assumes "detect_campaigns L self history m = (Inr cs, self')"
    and "c \<in> set cs"
    and "extract_features L history = Inr X"
    and "fit_transform X = Inr Xs"
  shows "1 \<le> length (attack_ids c) \<and> num_attacks c = length (attack_ids c)
    \<and> (m \<le> 3 \<and> neighborhoods_ok (radius_neighbors L 0.5 Xs) (length Xs)
         \<longrightarrow> m \<le> int (length (attack_ids c)) \<and> m \<le> int (num_attacks c))"
proof (cases "int (length history) < m")
  case True
  then show ?thesis
    using assms(1,2) by (simp add: detect_campaigns_def)
next
  case False
  then obtain labels where
    labels: "fit_predict L 0.5 m Xs = Inr labels" and
    form: "form_campaigns L history (map attack_id history) labels (cluster_ids labels) self
            = (Inr cs, self')"
    using assms(1,3,4) by (auto simp: detect_campaigns_def split: sum.splits)
  obtain cid where cid: "cid \<in> set labels" "cid \<noteq> -1"
     "attack_ids c = map (\<lambda>i. map attack_id history ! i) (indices_where labels cid)"
     "num_attacks c = length (indices_where labels cid)"
    using form_campaigns_members [OF form assms(2)] cluster_ids_set by auto
  have "indices_where labels cid \<noteq> []"
    using indices_where_nonempty [OF cid(1)] .
  then have one: "1 \<le> length (attack_ids c)"
    using cid(3) by (cases "indices_where labels cid") simp_all
  have num: "num_attacks c = length (attack_ids c)"
    using cid(3,4) by simp
  have "m \<le> int (length (attack_ids c))"
    if "m \<le> 3" "neighborhoods_ok (radius_neighbors L 0.5 Xs) (length Xs)"
  proof -
    have "m \<le> int (length (indices_where labels cid))"
      using fit_predict_ok [OF that labels] cid(1,2) by simp
    then show ?thesis
      using cid(3) by simp
  qed
  then show ?thesis
    using one num by simp
qed

theorem campaign_size_at_least_min_witness:
  "\<exists>cs self'. detect_campaigns sample_library new_detector uniform_batch 3 = (Inr cs, self')
      \<and> cs \<noteq> [] \<and> 3 \<le> int (length (attack_ids (hd cs))) \<and> 3 \<le> int (num_attacks (hd cs))"
proof -
  let ?f = "\<lparr> hour = 0, day = 0, country_code = 3, attack_type_code = 1, intensity_feature = 9,
             target_country_code = 4, lat = 45, lng = 90 \<rparr>"
  obtain c self' where run:
    "detect_campaigns sample_library new_detector uniform_batch 3 = (Inr [c], self')"
    using uniform_batch_run by blast
  have X: "extract_features sample_library uniform_batch
      = Inr (replicate (length uniform_batch) (feature_vector ?f))"
    using extract_features_identical [OF uniform_features] .
  have Xs: "fit_transform (replicate (length uniform_batch) (feature_vector ?f))
      = Inr (replicate (length uniform_batch) (replicate 8 0))"
    by (rule identical_batch_scaled) (simp add: uniform_batch_def)
  have ok: "neighborhoods_ok
      (radius_neighbors sample_library 0.5 (replicate (length uniform_batch) (replicate 8 0)))
      (length (replicate (length uniform_batch) (replicate 8 (0::real))))"
    unfolding sample_radius by (rule exact_radius_neighbors_ok) simp
  have "3 \<le> int (length (attack_ids c)) \<and> 3 \<le> int (num_attacks c)"
    using campaign_size_at_least_min [OF run _ X Xs, of c] ok by simp
  then show ?thesis
    using run by simp
qed

text \<open>
  C4 as stated fails for a larger \<open>min_cluster_size\<close>. With 4, the nine attacks of
  \<open>border_batch\<close> give two campaigns, and the second has three members only: the
  attack of intensity 5 is a neighbour of both core samples and the first cluster takes
  it. It also fails with the default 3 when the library decides a tie one way only: the
  attack of intensity 3 of \<open>tie_batch\<close> finds three neighbours that do not find it, and
  is a campaign of its own.
\<close>

theorem campaign_size_counterexample:
  "map_sum id (map attack_ids) (fst (detect_campaigns sample_library new_detector border_batch 4))
     = Inr [[''a0'', ''a1'', ''a2'', ''a3''], [''a4'', ''a5'', ''a6'']]
   \<and> map_sum id (map attack_ids) (fst (detect_campaigns one_sided_library new_detector tie_batch 3))
     = Inr [[''t0'', ''t1'', ''t2''], [''t3''], [''t4'', ''t5'', ''t6'', ''t7'', ''t8'']]"
  using border_run [of new_detector] tie_run [of new_detector] by simp

text \<open>
  C3 (as amended). In a batch of at least \<open>min_cluster_size \<ge> 1\<close> attacks that all have
  the same features, every column has zero variance and scales to 0, so all scaled points
  coincide. When the library then reports every point as a neighbour of every point, the
  run does not come back empty: it is one call of \<^verbatim>\<open>_create_campaign\<close> on the whole
  batch, which returns exactly one campaign that holds every attack when the timestamps
  are all aware or all naive, and fails with \<^verbatim>\<open>TypeError\<close>, the detector unchanged,
  when they are mixed.
\<close>

theorem degenerate_batch_one_campaign:
  assumes "history \<noteq> []" "1 \<le> m" "m \<le> int (length history)"
    and "\<forall>a \<in> set history. create_attack_features L a = Inr f"
    and "complete_neighborhoods
           (radius_neighbors L 0.5 (replicate (length history) (replicate 8 0))) (length history)"
  shows "extract_features L history = Inr (replicate (length history) (feature_vector f))
    \<and> fit_transform (replicate (length history) (feature_vector f))
        = Inr (replicate (length history) (replicate 8 0))
    \<and> (\<exists>ts. parse_timestamps L history = Inr ts \<and> length ts = length history
         \<and> (same_awareness ts \<longrightarrow>
               (\<exists>c self'. detect_campaigns L self history m = (Inr [c], self')
                  \<and> attack_ids c = map attack_id history \<and> num_attacks c = length history))
         \<and> (\<not> same_awareness ts \<longrightarrow>
               detect_campaigns L self history m = (Inl TypeError, self)))
    \<and> fst (detect_campaigns L self history m) \<noteq> Inr []"
proof -
  have X: "extract_features L history = Inr (replicate (length history) (feature_vector f))"
    using extract_features_identical [OF assms(4)] .
  obtain ts where ts: "parse_timestamps L history = Inr ts" "length ts = length history"
    using parse_timestamps_succeeds extract_features_parses [OF X] by blast
  have one: "\<exists>c self'. detect_campaigns L self history m = (Inr [c], self')
      \<and> attack_ids c = map attack_id history \<and> num_attacks c = length history"
    if "same_awareness ts"
    using identical_batch_campaign [OF assms ts(1) that, of self] by blast
  have err: "detect_campaigns L self history m = (Inl TypeError, self)"
    if "\<not> same_awareness ts"
    using identical_batch_type_error [OF assms ts(1) that, of self] .
  have "fst (detect_campaigns L self history m) \<noteq> Inr []"
    using one err by (cases "same_awareness ts") auto
  then show ?thesis
    using X identical_batch_scaled [OF assms(1), of f] ts one err by blast
qed

theorem degenerate_batch_one_campaign_witness:
  "(\<exists>c self'. detect_campaigns sample_library new_detector uniform_batch 3 = (Inr [c], self')
            \<and> attack_ids c = [''b0'', ''b1'', ''b2''] \<and> num_attacks c = 3)
    \<and> extract_features sample_library uniform_batch
        = Inr (replicate 3 (feature_vector
          \<lparr> hour = 0, day = 0, country_code = 3, attack_type_code = 1, intensity_feature = 9,
            target_country_code = 4, lat = 45, lng = 90 \<rparr>))
    \<and> fit_transform (replicate 3 (feature_vector
          \<lparr> hour = 0, day = 0, country_code = 3, attack_type_code = 1, intensity_feature = 9,
            target_country_code = 4, lat = 45, lng = 90 \<rparr>))
        = Inr (replicate 3 (replicate 8 0))"
proof -
  have a: "uniform_batch \<noteq> []" "(1::int) \<le> 3" "3 \<le> int (length uniform_batch)"
    by (simp_all add: uniform_batch_def)
  have c: "complete_neighborhoods
      (radius_neighbors sample_library 0.5 (replicate (length uniform_batch) (replicate 8 0)))
      (length uniform_batch)"
    unfolding sample_library_def by (rule exact_library_complete)
  have s: "same_awareness (replicate 3 (at_second 1704067200))"
    by (rule same_awareness_const [of _ True]) (simp add: at_second_def)
  show ?thesis
    using degenerate_batch_one_campaign [OF a uniform_features c, of new_detector]
      uniform_timestamps s
    unfolding uniform_ids by auto
qed

text \<open>
  C3 as stated fails twice. Three attacks with the same features are not answered with
  an empty list but with one campaign of the three; and when the timestamp of one of
  them has no UTC offset, the run fails.
\<close>

theorem degenerate_batch_counterexample:
  "map_sum id (map attack_ids) (fst (detect_campaigns sample_library new_detector uniform_batch 3))
     = Inr [[''b0'', ''b1'', ''b2'']]
   \<and> detect_campaigns sample_library new_detector mixed_batch 3 = (Inl TypeError, new_detector)"
proof -
  obtain c self' where
    "detect_campaigns sample_library new_detector uniform_batch 3 = (Inr [c], self')"
    "attack_ids c = [''b0'', ''b1'', ''b2'']"
    using uniform_batch_run by blast
  then show ?thesis
    using mixed_batch_run [of new_detector] by simp
qed

section \<open>The claims about a detection run as a whole\<close>

text \<open>
  C2. A batch with fewer than \<open>min_cluster_size\<close> events is answered with the empty
  list and the detector as it was: nothing is parsed, scaled or clustered (the result
  does not depend on the library), no campaign is created and the registry, the
  attack-to-campaign map and the counter are unchanged.
\<close>

theorem detect_campaigns_too_few:
  "int (length history) < m \<Longrightarrow> detect_campaigns L self history m = (Inr [], self)"
  by (simp add: detect_campaigns_def)

theorem detect_campaigns_too_few_witness:
  "detect_campaigns (exact_library (\<lambda>s. None)) new_detector
       [sample_attack ''e0'' 8, sample_attack ''e1'' 9] 3
     = (Inr [], new_detector)"
  using detect_campaigns_too_few
    [of "[sample_attack ''e0'' 8, sample_attack ''e1'' 9]" 3 "exact_library (\<lambda>s. None)"
       new_detector]
  by simp

lemma create_campaign_same_outcome:
  assumes "fromisoformat L2 = fromisoformat L"
  shows "(\<exists>e. create_campaign L s1 attacks ids = Inl e \<and> create_campaign L2 s2 attacks ids = Inl e)
   \<or> (\<exists>c1 t1 c2 t2. create_campaign L s1 attacks ids = Inr (c1, t1)
          \<and> create_campaign L2 s2 attacks ids = Inr (c2, t2)
          \<and> attack_ids c1 = ids \<and> attack_ids c2 = ids)"
proof (cases "parse_timestamps L attacks")
  case (Inl e)
  then have "create_campaign L s1 attacks ids = Inl e" "create_campaign L2 s2 attacks ids = Inl e"
    using parse_timestamps_cong [OF assms, of attacks] by (simp_all add: create_campaign_def)
  then show ?thesis
    by blast
next
  case (Inr ts)
  then have p2: "parse_timestamps L2 attacks = Inr ts"
    using parse_timestamps_cong [OF assms, of attacks] by simp
  show ?thesis
  proof (cases "ts = []")
    case True
    then have "create_campaign L s1 attacks ids = Inl ValueError"
      "create_campaign L2 s2 attacks ids = Inl ValueError"
      using Inr p2 by (simp_all add: create_campaign_def)
    then show ?thesis
      by blast
  next
    case False
    show ?thesis
    proof (cases "same_awareness ts")
      case True
      obtain c1 t1 where c1: "create_campaign L s1 attacks ids = Inr (c1, t1)"
        using create_campaign_succeeds [OF Inr False True] by blast
      obtain c2 t2 where c2: "create_campaign L2 s2 attacks ids = Inr (c2, t2)"
        using create_campaign_succeeds [OF p2 False True] by blast
      show ?thesis
        using c1 c2 create_campaign_result(1) [OF c1] create_campaign_result(1) [OF c2] by blast
    next
      case aw: False
      show ?thesis
        using create_campaign_type_error [OF Inr False aw, of s1 ids]
          create_campaign_type_error [OF p2 False aw, of s2 ids] by blast
    qed
  qed
qed

lemma form_campaigns_deterministic:
  assumes "fromisoformat L2 = fromisoformat L"
  shows "map_sum id (map attack_ids) (fst (form_campaigns L history ids labels cids s1))
     = map_sum id (map attack_ids) (fst (form_campaigns L2 history ids labels cids s2))"
proof (induction cids arbitrary: s1 s2)
  case Nil
  then show ?case by simp
next
  case (Cons cid cids)
  show ?case
  proof (cases "cid = -1")
    case True
    then show ?thesis
      using Cons.IH by simp
  next
    case False
    let ?idx = "indices_where labels cid"
    let ?A = "map (\<lambda>i. history ! i) ?idx" and ?I = "map (\<lambda>i. ids ! i) ?idx"
    from create_campaign_same_outcome [OF assms, of s1 ?A ?I s2] show ?thesis
    proof (elim disjE exE conjE)
      fix e
      assume "create_campaign L s1 ?A ?I = Inl e" "create_campaign L2 s2 ?A ?I = Inl e"
      then show ?thesis
        using False by (simp add: Let_def)
    next
      fix c1 t1 c2 t2
      assume cc: "create_campaign L s1 ?A ?I = Inr (c1, t1)" "create_campaign L2 s2 ?A ?I = Inr (c2, t2)"
        and ids: "attack_ids c1 = ?I" "attack_ids c2 = ?I"
      let ?u1 = "t1 \<lparr> attack_to_campaign :=
          foldl (\<lambda>d a. dict_set d a (campaign_id c1)) (attack_to_campaign t1) ?I \<rparr>"
      let ?u2 = "t2 \<lparr> attack_to_campaign :=
          foldl (\<lambda>d a. dict_set d a (campaign_id c2)) (attack_to_campaign t2) ?I \<rparr>"
      have IH: "map_sum id (map attack_ids) (fst (form_campaigns L history ids labels cids ?u1))
          = map_sum id (map attack_ids) (fst (form_campaigns L2 history ids labels cids ?u2))"
        using Cons.IH .
      obtain r1 v1 where r1: "form_campaigns L history ids labels cids ?u1 = (r1, v1)"
        by (cases "form_campaigns L history ids labels cids ?u1")
      obtain r2 v2 where r2: "form_campaigns L2 history ids labels cids ?u2 = (r2, v2)"
        by (cases "form_campaigns L2 history ids labels cids ?u2")
      have "map_sum id (map attack_ids) r1 = map_sum id (map attack_ids) r2"
        using IH r1 r2 by simp
      then show ?thesis
        using False cc ids r1 r2
        by (cases r1; cases r2) (simp_all add: Let_def)
    qed
  qed
qed

lemma detect_campaigns_membership:
  assumes "fromisoformat L2 = fromisoformat L"
    and "\<And>X. fit_predict L2 0.5 m X = fit_predict L 0.5 m X"
  shows "map_sum id (map attack_ids) (fst (detect_campaigns L2 s2 history m))
     = map_sum id (map attack_ids) (fst (detect_campaigns L s1 history m))"
proof (cases "int (length history) < m")
  case True
  then show ?thesis
    by (simp add: detect_campaigns_def)
next
  case small: False
  show ?thesis
  proof (cases "extract_features L history")
    case (Inl e)
    then show ?thesis
      using small extract_features_cong [OF assms(1), of history]
      by (simp add: detect_campaigns_def)
  next
    case X: (Inr X)
    show ?thesis
    proof (cases "fit_transform X")
      case (Inl e)
      then show ?thesis
        using small X extract_features_cong [OF assms(1), of history]
        by (simp add: detect_campaigns_def)
    next
      case Xs: (Inr Xs)
      show ?thesis
      proof (cases "fit_predict L 0.5 m Xs")
        case (Inl e)
        then have "fit_predict L2 0.5 m Xs = Inl e"
          using assms(2) by simp
        then show ?thesis
          using small X Xs Inl extract_features_cong [OF assms(1), of history]
          by (simp add: detect_campaigns_def)
      next
        case (Inr labels)
        then have "fit_predict L2 0.5 m Xs = Inr labels"
          using assms(2) by simp
        then show ?thesis
          using small X Xs Inr extract_features_cong [OF assms(1), of history]
            form_campaigns_deterministic [OF assms(1), of history "map attack_id history" labels
              "cluster_ids labels" s1 s2]
          by (simp add: detect_campaigns_def)
      qed
    qed
  qed
qed

text \<open>
  The loop over the clusters, once every timestamp of the batch has parsed: it fails when
  some cluster mixes aware and naive timestamps, and otherwise returns, as a set, the
  member ids of every cluster. Neither depends on the order of the cluster ids.
\<close>

lemma form_campaigns_set:
  assumes p: "parse_timestamps L history = Inr hts" and len: "length labels = length history"
  shows "set cids \<subseteq> set labels \<Longrightarrow>
    map_sum id (\<lambda>cs. set (map attack_ids cs)) (fst (form_campaigns L history ids labels cids s))
    = (if \<exists>cid \<in> set cids. cid \<noteq> -1
            \<and> \<not> same_awareness (map (\<lambda>i. hts ! i) (indices_where labels cid))
       then Inl TypeError
       else Inr ((\<lambda>cid. map (\<lambda>i. ids ! i) (indices_where labels cid)) ` (set cids - {-1})))"
proof (induction cids arbitrary: s)
  case Nil
  then show ?case by simp
next
  case (Cons cid cids)
  have sub: "set cids \<subseteq> set labels"
    using Cons.prems by simp
  show ?case
  proof (cases "cid = -1")
    case True
    have "set (cid # cids) - {-1} = set cids - {-1}"
      using True by auto
    then show ?thesis
      using True Cons.IH [OF sub, of s] by simp
  next
    case False
    let ?idx = "indices_where labels cid"
    let ?A = "map (\<lambda>i. history ! i) ?idx" and ?I = "map (\<lambda>i. ids ! i) ?idx"
    let ?ts = "map (\<lambda>i. hts ! i) ?idx"
    have ne: "?ts \<noteq> []"
      using indices_where_nonempty [of cid labels] Cons.prems by simp
    have rng: "\<forall>i \<in> set ?idx. i < length history"
      using indices_where_in_range [of _ labels cid] len by simp
    have pts: "parse_timestamps L ?A = Inr ?ts"
      using parse_timestamps_indices [OF p rng] .
    show ?thesis
    proof (cases "same_awareness ?ts")
      case aw: False
      have "create_campaign L s ?A ?I = Inl TypeError"
        using create_campaign_type_error [OF pts ne aw] .
      then have "fst (form_campaigns L history ids labels (cid # cids) s) = Inl TypeError"
        using False by (simp add: Let_def)
      then show ?thesis
        using False aw by auto
    next
      case aw: True
      obtain c0 s0 where cc: "create_campaign L s ?A ?I = Inr (c0, s0)"
        using create_campaign_succeeds [OF pts ne aw] by blast
      have c0: "attack_ids c0 = ?I"
        using create_campaign_result(1) [OF cc] .
      let ?s1 = "s0 \<lparr> attack_to_campaign :=
                       foldl (\<lambda>d a. dict_set d a (campaign_id c0))
                         (attack_to_campaign s0) ?I \<rparr>"
      obtain r v where r: "form_campaigns L history ids labels cids ?s1 = (r, v)"
        by (cases "form_campaigns L history ids labels cids ?s1")
      have fr: "fst (form_campaigns L history ids labels cids ?s1) = r"
        using r by simp
      have IH: "map_sum id (\<lambda>cs. set (map attack_ids cs)) r
        = (if \<exists>cid \<in> set cids. cid \<noteq> -1
                \<and> \<not> same_awareness (map (\<lambda>i. hts ! i) (indices_where labels cid))
           then Inl TypeError
           else Inr ((\<lambda>cid. map (\<lambda>i. ids ! i) (indices_where labels cid)) ` (set cids - {-1})))"
        using Cons.IH [OF sub, of ?s1] unfolding fr .
      have step: "fst (form_campaigns L history ids labels (cid # cids) s)
          = (case r of Inl e \<Rightarrow> Inl e | Inr cs \<Rightarrow> Inr (c0 # cs))"
        using False cc r by (cases r) (simp_all add: Let_def)
      have img: "set (cid # cids) - {-1} = insert cid (set cids - {-1})"
        using False by auto
      show ?thesis
      proof (cases r)
        case (Inl e)
        then show ?thesis
          using step IH aw by (auto split: if_splits)
      next
        case (Inr cs)
        then show ?thesis
          using step IH aw c0 unfolding img by (auto split: if_splits)
      qed
    qed
  qed
qed

lemma form_campaigns_any_order:
  assumes "parse_timestamps L history = Inr hts" "length labels = length history"
    and "set cids \<subseteq> set labels" "set cids' = set cids"
  shows "map_sum id (\<lambda>cs. set (map attack_ids cs))
           (fst (form_campaigns L history ids labels cids' s2))
       = map_sum id (\<lambda>cs. set (map attack_ids cs))
           (fst (form_campaigns L history ids labels cids s1))"
proof -
  have "set cids' \<subseteq> set labels"
    using assms(3,4) by simp
  then show ?thesis
    using form_campaigns_set [OF assms(1,2) assms(3), of ids s1]
      form_campaigns_set [OF assms(1,2), of cids' ids s2] assms(4)
    by simp
qed


lemma border_timestamps:
  "parse_timestamps sample_library border_batch = Inr (replicate 9 (at_second 1704067200))"
  by (simp add: border_batch_def sample_parse eval_nat_numeral)

lemma border_form:
  "detect_campaigns sample_library self border_batch 4
     = form_campaigns sample_library border_batch (map attack_id border_batch)
         [0, 0, 0, 0, 1, 1, 1, -1, -1] (cluster_ids [0, 0, 0, 0, 1, 1, 1, -1, -1]) self"
proof -
  have "border_batch \<noteq> []" "(1::int) \<le> 4" "4 \<le> int (length border_batch)"
    by (simp_all add: border_batch_def)
  then show ?thesis
    using detect_campaigns_unfold [OF border_features, of 4 self] border_labels by auto
qed

text \<open>
  C9. Two runs on the same batch, the second on the detector the first has left behind,
  end alike: both fail with the same error, or both return campaigns with the same
  member ids, cluster by cluster; the state of the detector only decides the campaign
  ids. Nor does a run depend on how ties are broken. Two libraries that parse alike and
  report the same neighbours for every point, in whatever order, give the same labels
  and the same member ids; and in whatever order the loop over the clusters takes the
  labels, it fails alike or forms the same set of member lists.
\<close>

theorem detect_campaigns_deterministic:
  "map_sum id (map attack_ids)
     (fst (detect_campaigns L (snd (detect_campaigns L self history m)) history m))
   = map_sum id (map attack_ids) (fst (detect_campaigns L self history m))
   \<and> (fromisoformat L2 = fromisoformat L \<longrightarrow>
        (\<forall>X. same_neighbors (radius_neighbors L 0.5 X) (radius_neighbors L2 0.5 X) (length X))
        \<longrightarrow> (\<forall>X. fit_predict L2 0.5 m X = fit_predict L 0.5 m X)
          \<and> map_sum id (map attack_ids) (fst (detect_campaigns L2 self2 history m))
            = map_sum id (map attack_ids) (fst (detect_campaigns L self history m)))
   \<and> (parse_timestamps L history = Inr hts \<longrightarrow> length labels = length history \<longrightarrow>
        set cids \<subseteq> set labels \<longrightarrow> set cids' = set cids \<longrightarrow>
        map_sum id (\<lambda>cs. set (map attack_ids cs))
           (fst (form_campaigns L history ids labels cids' self2))
        = map_sum id (\<lambda>cs. set (map attack_ids cs))
           (fst (form_campaigns L history ids labels cids self)))"
proof -
  have "map_sum id (map attack_ids)
     (fst (detect_campaigns L (snd (detect_campaigns L self history m)) history m))
   = map_sum id (map attack_ids) (fst (detect_campaigns L self history m))"
    by (rule detect_campaigns_membership) simp_all
  moreover have "(\<forall>X. fit_predict L2 0.5 m X = fit_predict L 0.5 m X)
          \<and> map_sum id (map attack_ids) (fst (detect_campaigns L2 self2 history m))
            = map_sum id (map attack_ids) (fst (detect_campaigns L self history m))"
    if a: "fromisoformat L2 = fromisoformat L"
      "\<forall>X. same_neighbors (radius_neighbors L 0.5 X) (radius_neighbors L2 0.5 X) (length X)"
  proof -
    have f: "fit_predict L2 0.5 m X = fit_predict L 0.5 m X" for X
      using a(2) by (intro fit_predict_cong) simp
    then show ?thesis
      using detect_campaigns_membership [OF a(1), of m self2 history self] by simp
  qed
  moreover have "map_sum id (\<lambda>cs. set (map attack_ids cs))
           (fst (form_campaigns L history ids labels cids' self2))
        = map_sum id (\<lambda>cs. set (map attack_ids cs))
           (fst (form_campaigns L history ids labels cids self))"
    if "parse_timestamps L history = Inr hts" "length labels = length history"
      "set cids \<subseteq> set labels" "set cids' = set cids"
    using form_campaigns_any_order [OF that] .
  ultimately show ?thesis
    by blast
qed

lemma reversed_same_neighbors:
  "same_neighbors (radius_neighbors sample_library 0.5 X)
     (radius_neighbors reversed_library 0.5 X) (length X)"
  by (simp add: same_neighbors_def reversed_library_def sample_radius exact_radius_neighbors_def)

theorem detect_campaigns_deterministic_witness:
  "map_sum id (map attack_ids) (fst (detect_campaigns reversed_library new_detector border_batch 4))
     = Inr [[''a0'', ''a1'', ''a2'', ''a3''], [''a4'', ''a5'', ''a6'']]
   \<and> map_sum id (map attack_ids) (fst (detect_campaigns sample_library new_detector border_batch 4))
     = Inr [[''a0'', ''a1'', ''a2'', ''a3''], [''a4'', ''a5'', ''a6'']]
   \<and> radius_neighbors reversed_library 0.5 (replicate 2 [0])
       \<noteq> radius_neighbors sample_library 0.5 (replicate 2 [0])
   \<and> map_sum id (\<lambda>cs. set (map attack_ids cs))
        (fst (form_campaigns sample_library border_batch (map attack_id border_batch)
                [0, 0, 0, 0, 1, 1, 1, -1, -1] [1, 0, -1] new_detector))
       = Inr {[''a0'', ''a1'', ''a2'', ''a3''], [''a4'', ''a5'', ''a6'']}"
proof -
  let ?labels = "[0, 0, 0, 0, 1, 1, 1, -1, -1] :: int list"
  have p: "fromisoformat reversed_library = fromisoformat sample_library"
    by (simp add: reversed_library_def)
  note inst = detect_campaigns_deterministic
      [of sample_library new_detector border_batch 4 reversed_library new_detector
          "replicate 9 (at_second 1704067200)" ?labels "cluster_ids ?labels" "[1, 0, -1]"
          "map attack_id border_batch"]
  have "map_sum id (map attack_ids) (fst (detect_campaigns reversed_library new_detector border_batch 4))
     = map_sum id (map attack_ids) (fst (detect_campaigns sample_library new_detector border_batch 4))"
    using inst p reversed_same_neighbors by blast
  moreover have "radius_neighbors reversed_library 0.5 (replicate 2 [0])
       \<noteq> radius_neighbors sample_library 0.5 (replicate 2 [0])"
    by (simp add: reversed_library_def sample_radius exact_radius_neighbors_def euclidean_def
        eval_nat_numeral)
  moreover have "map_sum id (\<lambda>cs. set (map attack_ids cs))
        (fst (form_campaigns sample_library border_batch (map attack_id border_batch)
                ?labels [1, 0, -1] new_detector))
       = Inr {[''a0'', ''a1'', ''a2'', ''a3''], [''a4'', ''a5'', ''a6'']}"
  proof -
    have h: "length ?labels = length border_batch" "set (cluster_ids ?labels) \<subseteq> set ?labels"
      "set [1, 0, -1] = set (cluster_ids ?labels)"
      by (auto simp: border_batch_def cluster_ids_set)
    have "map_sum id (\<lambda>cs. set (map attack_ids cs))
        (fst (form_campaigns sample_library border_batch (map attack_id border_batch)
                ?labels [1, 0, -1] new_detector))
      = map_sum id (\<lambda>cs. set (map attack_ids cs))
        (fst (form_campaigns sample_library border_batch (map attack_id border_batch)
                ?labels (cluster_ids ?labels) new_detector))"
      using inst border_timestamps h by blast
    also have "\<dots> = map_sum id (\<lambda>cs. set (map attack_ids cs))
        (fst (detect_campaigns sample_library new_detector border_batch 4))"
      by (simp only: border_form)
    also have "\<dots> = Inr {[''a0'', ''a1'', ''a2'', ''a3''], [''a4'', ''a5'', ''a6'']}"
      using border_run [of new_detector]
      by (cases "fst (detect_campaigns sample_library new_detector border_batch 4)") auto
    finally show ?thesis .
  qed
  ultimately show ?thesis
    using border_run [of new_detector] by simp
qed

text \<open>
  C10. While the attack history holds fewer than 50 events, \<^verbatim>\<open>GET /api/campaigns\<close>
  answers with an empty campaign list and the message that says how many events are
  missing; the detector is not called and nothing changes, whatever the history
  holds.
\<close>

theorem get_campaigns_below_50:
  "length (attack_history s) < 50 \<Longrightarrow>
   get_campaigns L s =
     (Inr (NeedMore [] (''Need '' @ decimal (50 - length (attack_history s))
                          @ '' more attacks to detect campaigns'')), s)"
  by (simp add: get_campaigns_def)

lemma decimal_47: "decimal 47 = ''47''"
  by (simp add: decimal.simps)

theorem get_campaigns_below_50_witness:
  "get_campaigns sample_library
      \<lparr> attack_history = uniform_batch, campaign_detector = new_detector \<rparr>
     = (Inr (NeedMore [] ''Need 47 more attacks to detect campaigns''),
        \<lparr> attack_history = uniform_batch, campaign_detector = new_detector \<rparr>)
   \<and> (\<exists>c self'. detect_campaigns sample_library new_detector uniform_batch 3
          = (Inr [c], self') \<and> attack_ids c = [''b0'', ''b1'', ''b2''])"
proof -
  have "length (attack_history \<lparr> attack_history = uniform_batch, campaign_detector = new_detector \<rparr>) < 50"
    by (simp add: uniform_batch_def)
  then have "get_campaigns sample_library
      \<lparr> attack_history = uniform_batch, campaign_detector = new_detector \<rparr>
     = (Inr (NeedMore [] ''Need 47 more attacks to detect campaigns''),
        \<lparr> attack_history = uniform_batch, campaign_detector = new_detector \<rparr>)"
    using get_campaigns_below_50
      [of "\<lparr> attack_history = uniform_batch, campaign_detector = new_detector \<rparr>" sample_library]
    by (simp add: uniform_ids decimal_47)
  then show ?thesis
    using uniform_batch_run [of new_detector] by blast
qed

section \<open>Properties of campaign ids and of the registry\<close>

lemma digit_value_all: "\<forall>d \<in> set [0..<10]. digit_value (''0123456789'' ! d) = d"
  by (simp add: digit_value_def upt_rec [of _ 10] eval_nat_numeral)

lemma digit_value_nth: "d < 10 \<Longrightarrow> digit_value (''0123456789'' ! d) = d"
  using digit_value_all by simp

lemma digit_value_zero: "digit_value CHR ''0'' = 0"
  by (simp add: digit_value_def)

lemma undecimal_snoc: "undecimal (s @ [c]) = 10 * undecimal s + digit_value c"
  by (simp add: undecimal_def)

lemma undecimal_decimal: "undecimal (decimal n) = n"
proof (induction n rule: decimal.induct)
  case (1 n)
  show ?case
  proof (cases "n < 10")
    case True
    then show ?thesis
      by (subst decimal.simps) (simp add: undecimal_def digit_value_nth)
  next
    case False
    then have "undecimal (decimal n) = 10 * undecimal (decimal (n div 10)) + digit_value (''0123456789'' ! (n mod 10))"
      by (subst decimal.simps) (simp add: undecimal_snoc)
    then show ?thesis
      using 1 False by (simp add: digit_value_nth)
  qed
qed

lemma undecimal_zeros: "undecimal (replicate k CHR ''0'' @ s) = undecimal s"
proof -
  have "foldl (\<lambda>n c. 10 * n + digit_value c) 0 (replicate k CHR ''0'') = 0"
    by (induction k) (simp_all add: digit_value_zero)
  then show ?thesis
    by (simp add: undecimal_def)
qed

lemma undecimal_format: "undecimal (format_04d n) = n"
  by (simp add: format_04d_def Let_def undecimal_zeros undecimal_decimal)

lemma campaign_id_of_inj: "(campaign_id_of a = campaign_id_of b) = (a = b)"
proof
  assume "campaign_id_of a = campaign_id_of b"
  then have "format_04d a = format_04d b"
    by (simp add: campaign_id_of_def)
  then have "undecimal (format_04d a) = undecimal (format_04d b)"
    by simp
  then show "a = b"
    by (simp add: undecimal_format)
qed simp

lemma decimal_length_pos: "0 < length (decimal n)"
  by (subst decimal.simps) simp

lemma decimal_length_small: "n < 10 \<Longrightarrow> length (decimal n) = 1"
  by (subst decimal.simps) simp

lemma decimal_length_step: "\<not> n < 10 \<Longrightarrow> length (decimal n) = Suc (length (decimal (n div 10)))"
  by (subst decimal.simps) simp

lemma div10_less: "(n div 10 < (x::nat)) = (n < 10 * x)"
  by arith

lemma decimal_length: "(length (decimal n) \<le> Suc k) = (n < 10 * 10 ^ k)"
proof (induction k arbitrary: n)
  case 0
  show ?case
  proof (cases "n < 10")
    case True
    then show ?thesis
      by (simp add: decimal_length_small)
  next
    case False
    then show ?thesis
      using decimal_length_pos [of "n div 10"] by (simp add: decimal_length_step)
  qed
next
  case (Suc k)
  show ?case
  proof (cases "n < 10")
    case True
    have "(1::nat) \<le> 10 * 10 ^ k"
      by (simp add: Suc_leI)
    then have "n < 10 * (10 * 10 ^ k)"
      using True by linarith
    then show ?thesis
      using True by (simp add: decimal_length_small)
  next
    case False
    have "(length (decimal n) \<le> Suc (Suc k)) = (length (decimal (n div 10)) \<le> Suc k)"
      using False by (simp add: decimal_length_step)
    also have "\<dots> = (n div 10 < 10 * 10 ^ k)"
      by (rule Suc.IH)
    also have "\<dots> = (n < 10 * (10 * 10 ^ k))"
      by (rule div10_less)
    finally show ?thesis
      by simp
  qed
qed

lemma decimal_length_4: "(length (decimal n) \<le> 4) = (n < 10000)"
proof -
  have "(4::nat) = Suc 3" "(10::nat) * 10 ^ 3 = 10000"
    by simp_all
  then show ?thesis
    using decimal_length [of n 3] by simp
qed

lemma campaign_id_length: "(length (campaign_id_of n) = 13) = (n < 10000)"
proof -
  have "length (campaign_id_of n) = 9 + max 4 (length (decimal n))"
    by (simp add: campaign_id_of_def format_04d_def Let_def max_def)
  then show ?thesis
    using decimal_length_4 [of n] by (auto simp: max_def)
qed

lemma dict_set_fresh: "k \<notin> fst ` set kvs \<Longrightarrow> dict_set kvs k v = kvs @ [(k, v)]"
  by (induction kvs) auto

lemma registry_ok_new: "registry_ok new_detector"
  by (simp add: registry_ok_def new_detector_def)

lemma create_campaign_registry:
  assumes "registry_ok self" "create_campaign L self attacks ids = Inr (c, self')"
  shows "registry_ok self'"
proof -
  let ?n = "next_campaign_id self"
  have r: "campaign_id c = campaign_id_of ?n" "next_campaign_id self' = ?n + 1"
    "campaigns self' = dict_set (campaigns self) (campaign_id c) c"
    using create_campaign_result [OF assms(2)] by simp_all
  have "campaign_id_of ?n \<notin> set (map campaign_id_of [1..<?n])"
    by (auto simp: campaign_id_of_inj)
  then have "campaign_id c \<notin> fst ` set (campaigns self)"
    using assms(1) r(1) by (simp add: registry_ok_def flip: set_map)
  then have app: "campaigns self' = campaigns self @ [(campaign_id c, c)]"
    using r(3) by (simp add: dict_set_fresh)
  have "[1..<?n + 1] = [1..<?n] @ [?n]"
    using assms(1) by (simp add: registry_ok_def)
  then show ?thesis
    using assms(1) r(1,2) app by (simp add: registry_ok_def)
qed

lemma form_campaigns_registry:
  "registry_ok self \<Longrightarrow> registry_ok (snd (form_campaigns L history ids labels cids self))"
proof (induction cids arbitrary: self)
  case Nil
  then show ?case by simp
next
  case (Cons cid cids)
  show ?case
  proof (cases "cid = -1")
    case True
    then show ?thesis
      using Cons by simp
  next
    case False
    let ?idx = "indices_where labels cid"
    let ?A = "map (\<lambda>i. history ! i) ?idx" and ?I = "map (\<lambda>i. ids ! i) ?idx"
    show ?thesis
    proof (cases "create_campaign L self ?A ?I")
      case (Inl e)
      then show ?thesis
        using False Cons.prems by (simp add: Let_def)
    next
      case (Inr res)
      obtain c s0 where res: "res = (c, s0)"
        by (cases res)
      let ?s1 = "s0 \<lparr> attack_to_campaign :=
          foldl (\<lambda>d a. dict_set d a (campaign_id c)) (attack_to_campaign s0) ?I \<rparr>"
      have "registry_ok s0"
        using create_campaign_registry [OF Cons.prems] Inr res by simp
      then have "registry_ok ?s1"
        by (simp add: registry_ok_def)
      then have IH: "registry_ok (snd (form_campaigns L history ids labels cids ?s1))"
        by (rule Cons.IH)
      obtain r v where rv: "form_campaigns L history ids labels cids ?s1 = (r, v)"
        by (cases "form_campaigns L history ids labels cids ?s1")
      then have "registry_ok v"
        using IH by simp
      then show ?thesis
        using False Inr res rv by (cases r) (simp_all add: Let_def)
    qed
  qed
qed

lemma detect_campaigns_registry:
  "registry_ok self \<Longrightarrow> registry_ok (snd (detect_campaigns L self history m))"
  using form_campaigns_registry
  by (simp add: detect_campaigns_def split: sum.splits)

lemma run_detections_registry:
  "registry_ok self \<Longrightarrow> registry_ok (run_detections L self runs)"
  by (induction runs arbitrary: self) (auto simp: detect_campaigns_registry)

text \<open>
  C5 (as amended). Through any sequence of detection runs on one detector, the campaigns
  in the registry carry, in creation order, the ids of the counter values 1, 2, ...: the
  numeric suffixes are strictly increasing and the ids pairwise different. The suffix is
  the counter in decimal, padded with zeros to four digits; it is four characters wide
  exactly while the counter is below 10000.
\<close>

theorem campaign_ids_increasing_unique:
  "map fst (campaigns (run_detections L new_detector runs))
     = map campaign_id_of [1..<next_campaign_id (run_detections L new_detector runs)]
   \<and> map (\<lambda>kv. campaign_id (snd kv)) (campaigns (run_detections L new_detector runs))
     = map campaign_id_of [1..<next_campaign_id (run_detections L new_detector runs)]
   \<and> map (\<lambda>kv. undecimal (drop 9 (fst kv))) (campaigns (run_detections L new_detector runs))
     = [1..<next_campaign_id (run_detections L new_detector runs)]
   \<and> distinct (map fst (campaigns (run_detections L new_detector runs)))
   \<and> (campaign_id_of a = campaign_id_of b) = (a = b)
   \<and> take 9 (campaign_id_of a) = ''CAMPAIGN_''
   \<and> undecimal (drop 9 (campaign_id_of a)) = a
   \<and> (length (drop 9 (campaign_id_of a)) = 4) = (a < 10000)"
proof -
  let ?d = "run_detections L new_detector runs"
  have ok: "registry_ok ?d"
    using run_detections_registry [OF registry_ok_new] .
  have keys: "map fst (campaigns ?d) = map campaign_id_of [1..<next_campaign_id ?d]"
    and vals: "map (\<lambda>kv. campaign_id (snd kv)) (campaigns ?d) = map campaign_id_of [1..<next_campaign_id ?d]"
    using ok by (simp_all add: registry_ok_def)
  have suffix: "\<And>n. undecimal (drop 9 (campaign_id_of n)) = n"
    by (simp add: campaign_id_of_def undecimal_format)
  have "map (\<lambda>kv. undecimal (drop 9 (fst kv))) (campaigns ?d)
      = map (\<lambda>k. undecimal (drop 9 k)) (map fst (campaigns ?d))"
    by simp
  also have "\<dots> = [1..<next_campaign_id ?d]"
    unfolding keys by (simp add: suffix comp_def)
  finally have nums: "map (\<lambda>kv. undecimal (drop 9 (fst kv))) (campaigns ?d) = [1..<next_campaign_id ?d]" .
  have "distinct (map campaign_id_of [1..<next_campaign_id ?d])"
    by (simp add: distinct_map inj_on_def campaign_id_of_inj)
  then have dist: "distinct (map fst (campaigns ?d))"
    using keys by simp
  have len: "(length (drop 9 (campaign_id_of a)) = 4) = (a < 10000)"
    using campaign_id_length [of a] by (auto simp: campaign_id_of_def)
  have pre: "take 9 (campaign_id_of a) = ''CAMPAIGN_''"
    by (simp add: campaign_id_of_def)
  show ?thesis
    using keys vals nums dist campaign_id_of_inj [of a b] pre suffix [of a] len by blast
qed

text \<open>
  C5 as stated fails in its fixed width: the suffix of the id for counter value 10000 has
  five characters, the one for 9999 has four.
\<close>

theorem campaign_id_width_counterexample:
  "campaign_id_of 9999 = ''CAMPAIGN_9999'' \<and> campaign_id_of 10000 = ''CAMPAIGN_10000''
   \<and> length (drop 9 (campaign_id_of 10000)) \<noteq> length (drop 9 (campaign_id_of 9999))"
  by (simp add: campaign_id_of_def format_04d_def decimal.simps)

section \<open>Feature extraction and events that cannot be parsed\<close>

lemma create_attack_features_error:
  "(create_attack_features L a = Inl e)
     = (e = ValueError \<and> fromisoformat L (replace_Z (timestamp a)) = None)"
  by (auto simp: create_attack_features_def parse_timestamp_def split: option.splits)

lemma extract_features_fails:
  "a \<in> set history \<Longrightarrow> fromisoformat L (replace_Z (timestamp a)) = None \<Longrightarrow>
   extract_features L history = Inl ValueError"
proof (induction history)
  case Nil
  then show ?case by simp
next
  case (Cons b history)
  show ?case
  proof (cases "create_attack_features L b")
    case (Inl e)
    then show ?thesis
      using create_attack_features_error [of L b e] by simp
  next
    case (Inr f)
    then have "a \<noteq> b"
      using Cons.prems(2) create_attack_features_error [of L a ValueError] by auto
    then have "extract_features L history = Inl ValueError"
      using Cons by simp
    then show ?thesis
      using Inr by simp
  qed
qed

lemma detect_campaigns_unparsable:
  "a \<in> set history \<Longrightarrow> fromisoformat L (replace_Z (timestamp a)) = None \<Longrightarrow>
   m \<le> int (length history) \<Longrightarrow>
   detect_campaigns L self history m = (Inl ValueError, self)"
  by (simp add: detect_campaigns_def extract_features_fails)

lemma extract_features_error:
  "(extract_features L history = Inl e)
     = (e = ValueError \<and> (\<exists>b \<in> set history. fromisoformat L (replace_Z (timestamp b)) = None))"
proof (induction history)
  case Nil
  then show ?case by simp
next
  case (Cons a history)
  show ?case
  proof (cases "create_attack_features L a")
    case (Inl e')
    then show ?thesis
      using create_attack_features_error [of L a e'] by auto
  next
    case (Inr f)
    then have "fromisoformat L (replace_Z (timestamp a)) \<noteq> None"
      using create_attack_features_error [of L a ValueError] by auto
    then show ?thesis
      using Inr Cons.IH by (auto split: sum.splits)
  qed
qed

lemma get_campaigns_unparsable:
  "a \<in> set (attack_history s) \<Longrightarrow> fromisoformat L (replace_Z (timestamp a)) = None \<Longrightarrow>
   50 \<le> length (attack_history s) \<Longrightarrow> get_campaigns L s = (Inl ValueError, s)"
  using detect_campaigns_unparsable [of a "attack_history s" L 3 "campaign_detector s"]
  by (simp add: get_campaigns_def)

lemma store_attack_last: "last (store_attack h a) = a"
  by (cases h) (simp_all add: store_attack_def Let_def MAX_HISTORY_def)

lemma unparsable_sample: "fromisoformat sample_library (replace_Z (timestamp unparsable_attack)) = None"
  by (simp add: unparsable_attack_def sample_attack_at_def replace_Z_def sample_library_def
      exact_library_def sample_fromisoformat_def)

text \<open>
  C7 (as amended). \<^verbatim>\<open>create_attack_features\<close> is a function of the event alone, given
  the parser of the standard library. It fails, with the parser's \<^verbatim>\<open>ValueError\<close> and
  with no other error, exactly when \<^verbatim>\<open>datetime.fromisoformat\<close> refuses the timestamp
  (every \<^verbatim>\<open>Z\<close> replaced by \<^verbatim>\<open>+00:00\<close>), and otherwise returns the features of the
  8-dimensional vector, hour and weekday taken from the parsed time. The feature loop of
  a run fails exactly when the parser refuses the timestamp of one of the events of the
  batch. Nothing rejects the event: the store takes it unchecked, and when a run meets it
  the failure leaves \<^verbatim>\<open>detect_campaigns\<close> and the endpoint with the history and the
  detector unchanged, the event still stored.
\<close>

theorem feature_extraction_fails_iff_unparsable:
  "(create_attack_features L a = Inl ValueError)
     = (fromisoformat L (replace_Z (timestamp a)) = None)
   \<and> create_attack_features L a \<noteq> Inl InvalidParameterError
   \<and> create_attack_features L a \<noteq> Inl TypeError
   \<and> (\<exists>f. create_attack_features L a = Inr f)
       = (\<exists>t. fromisoformat L (replace_Z (timestamp a)) = Some t)
   \<and> (fromisoformat L (replace_Z (timestamp a)) = Some t \<longrightarrow>
        create_attack_features L a
          = Inr \<lparr> hour = dt_hour t, day = dt_weekday t,
                  country_code = country_to_code (source_country a),
                  attack_type_code = attack_type_to_code (attack_type a),
                  intensity_feature = intensity a,
                  target_country_code = country_to_code (target_country a),
                  lat = (case source_lat a of Some x \<Rightarrow> x | None \<Rightarrow> 0),
                  lng = (case source_lng a of Some x \<Rightarrow> x | None \<Rightarrow> 0) \<rparr>)
   \<and> length (feature_vector f) = 8
   \<and> (extract_features L history = Inl ValueError)
       = (\<exists>b \<in> set history. fromisoformat L (replace_Z (timestamp b)) = None)
   \<and> (\<exists>X. extract_features L history = Inr X)
       = (\<forall>b \<in> set history. fromisoformat L (replace_Z (timestamp b)) \<noteq> None)
   \<and> last (store_attack h a) = a
   \<and> (fromisoformat L (replace_Z (timestamp a)) = None \<longrightarrow> a \<in> set history
        \<longrightarrow> m \<le> int (length history)
        \<longrightarrow> detect_campaigns L self history m = (Inl ValueError, self))
   \<and> (fromisoformat L (replace_Z (timestamp a)) = None \<longrightarrow> a \<in> set (attack_history s)
        \<longrightarrow> 50 \<le> length (attack_history s) \<longrightarrow> get_campaigns L s = (Inl ValueError, s))"
proof -
  have "(\<exists>f. create_attack_features L a = Inr f)
      = (\<exists>t. fromisoformat L (replace_Z (timestamp a)) = Some t)"
    by (auto simp: create_attack_features_def parse_timestamp_def split: option.splits)
  moreover have "length (feature_vector f) = 8"
    by (simp add: feature_vector_def)
  moreover have "(create_attack_features L a = Inl ValueError)
     = (fromisoformat L (replace_Z (timestamp a)) = None)"
    using create_attack_features_error [of L a ValueError] by simp
  moreover have "create_attack_features L a \<noteq> Inl InvalidParameterError"
    "create_attack_features L a \<noteq> Inl TypeError"
    using create_attack_features_error [of L a] by simp_all
  moreover have "fromisoformat L (replace_Z (timestamp a)) = Some t \<longrightarrow>
        create_attack_features L a
          = Inr \<lparr> hour = dt_hour t, day = dt_weekday t,
                  country_code = country_to_code (source_country a),
                  attack_type_code = attack_type_to_code (attack_type a),
                  intensity_feature = intensity a,
                  target_country_code = country_to_code (target_country a),
                  lat = (case source_lat a of Some x \<Rightarrow> x | None \<Rightarrow> 0),
                  lng = (case source_lng a of Some x \<Rightarrow> x | None \<Rightarrow> 0) \<rparr>"
    by (simp add: create_attack_features_def parse_timestamp_def)
  moreover have "(extract_features L history = Inl ValueError)
       = (\<exists>b \<in> set history. fromisoformat L (replace_Z (timestamp b)) = None)"
    using extract_features_error [of L history ValueError] by simp
  moreover have "(\<exists>X. extract_features L history = Inr X)
       = (\<forall>b \<in> set history. fromisoformat L (replace_Z (timestamp b)) \<noteq> None)"
    using extract_features_error [of L history] by (cases "extract_features L history") auto
  ultimately show ?thesis
    using store_attack_last [of h a]
      detect_campaigns_unparsable [of a history L m self] get_campaigns_unparsable [of a s L]
    by blast
qed

theorem feature_extraction_fails_iff_unparsable_witness:
  "create_attack_features sample_library unparsable_attack = Inl ValueError
   \<and> extract_features sample_library (replicate 3 unparsable_attack) = Inl ValueError
   \<and> last (store_attack [] unparsable_attack) = unparsable_attack
   \<and> detect_campaigns sample_library new_detector (replicate 3 unparsable_attack) 3
       = (Inl ValueError, new_detector)
   \<and> get_campaigns sample_library
        \<lparr> attack_history = replicate 50 unparsable_attack, campaign_detector = new_detector \<rparr>
       = (Inl ValueError,
          \<lparr> attack_history = replicate 50 unparsable_attack, campaign_detector = new_detector \<rparr>)
   \<and> create_attack_features sample_library (sample_attack ''b0'' 9)
       = Inr \<lparr> hour = 0, day = 0, country_code = 3, attack_type_code = 1, intensity_feature = 9,
               target_country_code = 4, lat = 45, lng = 90 \<rparr>"
proof -
  have p: "fromisoformat sample_library (replace_Z (timestamp (sample_attack ''b0'' 9)))
      = Some (at_second 1704067200)"
    by (simp add: sample_attack_def sample_attack_at_def replace_Z_def sample_library_def
        exact_library_def sample_fromisoformat_def at_second_def)
  have f: "\<lparr> hour = dt_hour (at_second 1704067200), day = dt_weekday (at_second 1704067200),
             country_code = country_to_code (source_country (sample_attack ''b0'' 9)),
             attack_type_code = attack_type_to_code (attack_type (sample_attack ''b0'' 9)),
             intensity_feature = intensity (sample_attack ''b0'' 9),
             target_country_code = country_to_code (target_country (sample_attack ''b0'' 9)),
             lat = (case source_lat (sample_attack ''b0'' 9) of Some x \<Rightarrow> x | None \<Rightarrow> 0),
             lng = (case source_lng (sample_attack ''b0'' 9) of Some x \<Rightarrow> x | None \<Rightarrow> 0) \<rparr>
      = \<lparr> hour = 0, day = 0, country_code = 3, attack_type_code = 1, intensity_feature = 9,
               target_country_code = 4, lat = 45, lng = 90 \<rparr>"
    by (simp add: sample_attack_def sample_attack_at_def at_second_def country_to_code_def
        country_codes_def attack_type_to_code_def type_codes_def)
  have ok: "create_attack_features sample_library (sample_attack ''b0'' 9)
       = Inr \<lparr> hour = 0, day = 0, country_code = 3, attack_type_code = 1, intensity_feature = 9,
               target_country_code = 4, lat = 45, lng = 90 \<rparr>"
    using feature_extraction_fails_iff_unparsable
      [of sample_library "sample_attack ''b0'' 9" "at_second 1704067200"] p
    unfolding f by blast
  have bad: "create_attack_features sample_library unparsable_attack = Inl ValueError
   \<and> extract_features sample_library (replicate 3 unparsable_attack) = Inl ValueError
   \<and> last (store_attack [] unparsable_attack) = unparsable_attack
   \<and> detect_campaigns sample_library new_detector (replicate 3 unparsable_attack) 3
       = (Inl ValueError, new_detector)
   \<and> get_campaigns sample_library
        \<lparr> attack_history = replicate 50 unparsable_attack, campaign_detector = new_detector \<rparr>
       = (Inl ValueError,
          \<lparr> attack_history = replicate 50 unparsable_attack, campaign_detector = new_detector \<rparr>)"
    using feature_extraction_fails_iff_unparsable
      [of sample_library unparsable_attack _ _ "replicate 3 unparsable_attack" "[]" 3 new_detector
         "\<lparr> attack_history = replicate 50 unparsable_attack, campaign_detector = new_detector \<rparr>"]
      unparsable_sample
    by simp
  show ?thesis
    using ok bad by blast
qed

text \<open>
  C7 as stated fails in its parenthesis: an event with the timestamp \<^verbatim>\<open>yesterday\<close>
  is appended to the store like any other, feature extraction fails on it, and the
  endpoint that meets fifty of them fails and leaves all fifty stored. It also fails in
  its condition: a timestamp without a UTC offset is not a UTC instant, and the features
  of its event are extracted.
\<close>

theorem unparsable_event_stays_stored_counterexample:
  "store_attack [] unparsable_attack = [unparsable_attack]
   \<and> create_attack_features sample_library unparsable_attack = Inl ValueError
   \<and> get_campaigns sample_library
        \<lparr> attack_history = replicate 50 unparsable_attack, campaign_detector = new_detector \<rparr>
       = (Inl ValueError,
          \<lparr> attack_history = replicate 50 unparsable_attack, campaign_detector = new_detector \<rparr>)
   \<and> create_attack_features sample_library (sample_attack_at ''m1'' 9 ''2024-01-01T00:00:00'')
       = Inr \<lparr> hour = 0, day = 0, country_code = 3, attack_type_code = 1, intensity_feature = 9,
               target_country_code = 4, lat = 45, lng = 90 \<rparr>"
proof -
  have "store_attack [] unparsable_attack = [unparsable_attack]"
    by (simp add: store_attack_def Let_def MAX_HISTORY_def)
  moreover have "create_attack_features sample_library unparsable_attack = Inl ValueError"
    using create_attack_features_error unparsable_sample by blast
  moreover have "get_campaigns sample_library
        \<lparr> attack_history = replicate 50 unparsable_attack, campaign_detector = new_detector \<rparr>
       = (Inl ValueError,
          \<lparr> attack_history = replicate 50 unparsable_attack, campaign_detector = new_detector \<rparr>)"
    by (rule get_campaigns_unparsable [of unparsable_attack]) (simp_all add: unparsable_sample)
  moreover have "create_attack_features sample_library
        (sample_attack_at ''m1'' 9 ''2024-01-01T00:00:00'')
       = Inr \<lparr> hour = 0, day = 0, country_code = 3, attack_type_code = 1, intensity_feature = 9,
               target_country_code = 4, lat = 45, lng = 90 \<rparr>"
    using mixed_features by (simp add: mixed_batch_def)
  ultimately show ?thesis by blast
qed

section \<open>The attribution of a campaign\<close>

lemma returned_confidence_weighted:
  "returned_confidence (attribute_threat_actor tys country interval n) =
     weighted_confidence (get_signature_score tys) (get_geographic_score country)
       (get_timing_score interval n) (get_operational_score tys n)"
proof -
  let ?W = "weighted_confidence (get_signature_score tys) (get_geographic_score country)
       (get_timing_score interval n) (get_operational_score tys n)"
  obtain m :: int where m: "?W = of_int m / 10 ^ 4" "m \<le> 9700"
    using weighted_confidence_exact by blast
  have "?W \<le> 0.97"
    using m(2) by (simp add: m(1))
  then have cap: "min 0.97 ?W = ?W"
    by (rule min_absorb2)
  have "py_round ?W 4 = ?W"
    unfolding m(1) by (rule py_round_exact)
  then have "py_round (min 0.97 ?W) 4 = ?W"
    by (simp only: cap)
  moreover have "returned_confidence (attribute_threat_actor tys country interval n)
      = py_round (min 0.97 ?W) 4"
    by (simp add: attribute_threat_actor_def Let_def split: prod.splits)
  ultimately show ?thesis
    by simp
qed

lemma actor_decision:
  "actor (attribute_threat_actor tys country interval n) =
     fst (decision tys (get_signature_score tys) (get_geographic_score country)
       (get_timing_score interval n) (get_operational_score tys n))"
  by (simp add: attribute_threat_actor_def Let_def split: prod.splits)

lemma create_campaign_fields:
  assumes "create_campaign L self attacks ids = Inr (c, self')"
  shows "\<exists>ts. parse_timestamps L attacks = Inr ts \<and> ts \<noteq> [] \<and> same_awareness ts
     \<and> signature c = map fst (count_keys (map attack_type attacks))
     \<and> primary_source_country c
         = fst (max_count (hd (count_keys (map source_country attacks)))
                  (tl (count_keys (map source_country attacks))))
     \<and> num_attacks c = length attacks
     \<and> attributed_actor c = actor (attribute_threat_actor (signature c)
           (primary_source_country c) (avg_interval L ts) (num_attacks c))
     \<and> confidence c = returned_confidence (attribute_threat_actor (signature c)
           (primary_source_country c) (avg_interval L ts) (num_attacks c))"
  using assms
  by (auto simp: create_campaign_def Let_def split: sum.splits list.splits if_splits)

lemma scenario_features:
  "\<forall>a \<in> set scenario_batch. create_attack_features sample_library a
     = Inr \<lparr> hour = 0, day = 0, country_code = 3, attack_type_code = 1, intensity_feature = 9,
             target_country_code = 4, lat = 45, lng = 90 \<rparr>"
  by (simp add: scenario_batch_def create_attack_features_def parse_timestamp_def
      sample_library_def exact_library_def sample_fromisoformat_def sample_attack_at_def
      replace_Z_def country_to_code_def country_codes_def attack_type_to_code_def type_codes_def)

lemma scenario_timestamps:
  "parse_timestamps sample_library scenario_batch
     = Inr [at_second 1704067200, at_second 1704067800, at_second 1704068400,
            at_second 1704069000, at_second 1704069600]"
  by (simp add: scenario_batch_def parse_timestamp_def sample_library_def exact_library_def
      sample_fromisoformat_def sample_attack_at_def replace_Z_def at_second_def)

lemma scenario_aware:
  "same_awareness [at_second 1704067200, at_second 1704067800, at_second 1704068400,
            at_second 1704069000, at_second 1704069600]"
  by (simp add: same_awareness_def at_second_def)

lemma scenario_counts:
  "count_keys (map source_country scenario_batch) = [(''Russia'', 5)]"
  "count_keys (map attack_type scenario_batch) = [(''DDoS'', 5)]"
  "length scenario_batch = 5"
  "map attack_id scenario_batch = [''s0'', ''s1'', ''s2'', ''s3'', ''s4'']"
  by (simp_all add: scenario_batch_def sample_attack_at_def count_keys_def bump_def)

lemma scenario_interval:
  "avg_interval sample_library [at_second 1704067200, at_second 1704067800, at_second 1704068400,
            at_second 1704069000, at_second 1704069600] = 10"
  by (simp add: avg_interval_def sample_library_def exact_library_def mean_def at_second_def)

lemma scenario_attribution:
  "attribute_threat_actor [''DDoS''] ''Russia'' 10 5
     = \<lparr> actor = ''Hacktivist Collective'', returned_confidence = 0.815,
         returned_sophistication = ''Medium'' \<rparr>"
  by (simp add: attribute_threat_actor_def get_signature_score_def get_geographic_score_def
      geo_profiles_def get_timing_score_def get_operational_score_def weighted_confidence_def
      decision_def py_round_def round_half_even_def Let_def)

lemma scenario_create:
  "\<exists>c s. create_campaign sample_library self scenario_batch
            [''s0'', ''s1'', ''s2'', ''s3'', ''s4''] = Inr (c, s)"
  by (rule create_campaign_succeeds [OF scenario_timestamps _ scenario_aware]) simp

lemma scenario_run:
  "\<exists>c self'. detect_campaigns sample_library new_detector scenario_batch 3 = (Inr [c], self')
      \<and> signature c = [''DDoS''] \<and> primary_source_country c = ''Russia'' \<and> num_attacks c = 5
      \<and> attributed_actor c = ''Hacktivist Collective'' \<and> confidence c = 0.815"
proof -
  have a: "scenario_batch \<noteq> []" "(1::int) \<le> 3" "3 \<le> int (length scenario_batch)"
    by (simp_all add: scenario_batch_def)
  have n: "complete_neighborhoods
      (radius_neighbors sample_library 0.5 (replicate (length scenario_batch) (replicate 8 0)))
      (length scenario_batch)"
    unfolding sample_library_def by (rule exact_library_complete)
  obtain c s0 self' where
    run: "detect_campaigns sample_library new_detector scenario_batch 3 = (Inr [c], self')"
    and cc: "create_campaign sample_library new_detector scenario_batch
               (map attack_id scenario_batch) = Inr (c, s0)"
    using identical_batch_campaign
      [OF a scenario_features n scenario_timestamps scenario_aware, of new_detector] by blast
  have "signature c = [''DDoS''] \<and> primary_source_country c = ''Russia'' \<and> num_attacks c = 5
      \<and> attributed_actor c = ''Hacktivist Collective'' \<and> confidence c = 0.815"
    using create_campaign_fields [OF cc]
    by (auto simp: scenario_timestamps scenario_counts scenario_interval scenario_attribution)
  then show ?thesis
    using run by blast
qed

section \<open>The timing score of a cluster\<close>







section \<open>The claim about the confidence\<close>

text \<open>
  C1 (as amended). The confidence that \<^verbatim>\<open>_attribute_threat_actor\<close> returns, and that
  \<^verbatim>\<open>_create_campaign\<close> stores on the campaign, is the weighted composite
  \<open>0.40*signature + 0.25*geographic + 0.20*timing + 0.15*operational\<close>: the cap at 0.97
  is never reached and rounding to four decimals changes nothing. The decision logic
  selects the actor; the constant it assigns to its local \<^verbatim>\<open>confidence\<close> is not what is
  returned.
\<close>

theorem attribution_confidence_is_weighted:
  "returned_confidence (attribute_threat_actor tys country interval n) =
     weighted_confidence (get_signature_score tys) (get_geographic_score country)
       (get_timing_score interval n) (get_operational_score tys n)
   \<and> actor (attribute_threat_actor tys country interval n) =
     fst (decision tys (get_signature_score tys) (get_geographic_score country)
       (get_timing_score interval n) (get_operational_score tys n))
   \<and> (create_campaign L self attacks ids = Inr (c, self') \<longrightarrow>
       (\<exists>ts. parse_timestamps L attacks = Inr ts
          \<and> confidence c =
              weighted_confidence (get_signature_score (signature c))
                (get_geographic_score (primary_source_country c))
                (get_timing_score (avg_interval L ts) (num_attacks c))
                (get_operational_score (signature c) (num_attacks c))))"
proof -
  have "create_campaign L self attacks ids = Inr (c, self') \<longrightarrow>
       (\<exists>ts. parse_timestamps L attacks = Inr ts
          \<and> confidence c =
              weighted_confidence (get_signature_score (signature c))
                (get_geographic_score (primary_source_country c))
                (get_timing_score (avg_interval L ts) (num_attacks c))
                (get_operational_score (signature c) (num_attacks c)))"
    using create_campaign_fields [of L self attacks ids c self'] returned_confidence_weighted
    by auto
  then show ?thesis
    using returned_confidence_weighted [of tys country interval n]
      actor_decision [of tys country interval n] by blast
qed

theorem attribution_confidence_is_weighted_witness:
  "\<exists>c s. create_campaign sample_library new_detector scenario_batch
            [''s0'', ''s1'', ''s2'', ''s3'', ''s4''] = Inr (c, s)
     \<and> signature c = [''DDoS''] \<and> primary_source_country c = ''Russia'' \<and> num_attacks c = 5
     \<and> confidence c =
          weighted_confidence (get_signature_score [''DDoS'']) (get_geographic_score ''Russia'')
            (get_timing_score 10 5) (get_operational_score [''DDoS''] 5)"
proof -
  obtain c s where cc: "create_campaign sample_library new_detector scenario_batch
            [''s0'', ''s1'', ''s2'', ''s3'', ''s4''] = Inr (c, s)"
    using scenario_create by blast
  have f: "signature c = [''DDoS'']" "primary_source_country c = ''Russia''" "num_attacks c = 5"
    using create_campaign_fields [OF cc] by (auto simp: scenario_counts)
  have "confidence c =
          weighted_confidence (get_signature_score (signature c))
            (get_geographic_score (primary_source_country c))
            (get_timing_score (avg_interval sample_library
               [at_second 1704067200, at_second 1704067800,
                at_second 1704068400, at_second 1704069000, at_second 1704069600]) (num_attacks c))
            (get_operational_score (signature c) (num_attacks c))"
    using attribution_confidence_is_weighted
      [of _ _ _ _ sample_library new_detector scenario_batch
          "[''s0'', ''s1'', ''s2'', ''s3'', ''s4'']" c s] cc scenario_timestamps
    by auto
  then show ?thesis
    using cc f by (auto simp: scenario_interval)
qed

text \<open>
  C1 as stated fails on the scenario of five DDoS attacks from Russia ten minutes
  apart: the third rule fires, with the constant 0.85, and the campaign that the
  detection run returns carries the composite 0.815, which is none of the five constants.
\<close>

theorem attribution_confidence_counterexample:
  "map_sum id (map confidence)
      (fst (detect_campaigns sample_library new_detector scenario_batch 3)) = Inr [0.815]
   \<and> map_sum id (map attributed_actor)
      (fst (detect_campaigns sample_library new_detector scenario_batch 3))
       = Inr [''Hacktivist Collective'']
   \<and> returned_confidence (attribute_threat_actor [''DDoS''] ''Russia'' 10 5) = 0.815
   \<and> decision [''DDoS''] (get_signature_score [''DDoS'']) (get_geographic_score ''Russia'')
        (get_timing_score 10 5) (get_operational_score [''DDoS''] 5)
       = (''Hacktivist Collective'', 0.85)
   \<and> returned_confidence (attribute_threat_actor [''DDoS''] ''Russia'' 10 5)
       \<notin> {0.92, 0.89, 0.85, 0.78, 0.65}"
proof -
  obtain c self' where
    "detect_campaigns sample_library new_detector scenario_batch 3 = (Inr [c], self')"
    "attributed_actor c = ''Hacktivist Collective''" "confidence c = 0.815"
    using scenario_run by blast
  moreover have "decision [''DDoS''] (get_signature_score [''DDoS'']) (get_geographic_score ''Russia'')
        (get_timing_score 10 5) (get_operational_score [''DDoS''] 5)
       = (''Hacktivist Collective'', 0.85)"
    by (simp add: get_signature_score_def get_geographic_score_def geo_profiles_def
        get_timing_score_def get_operational_score_def decision_def Let_def)
  ultimately show ?thesis
    by (simp add: scenario_attribution)
qed

section \<open>The counter through successful runs\<close>

lemma form_campaigns_counter:
  "form_campaigns L history ids labels cids self = (Inr cs, self') \<Longrightarrow>
   next_campaign_id self' = next_campaign_id self + length cs"
proof (induction cids arbitrary: self cs)
  case Nil
  then show ?case by simp
next
  case (Cons cid cids)
  show ?case
  proof (cases "cid = -1")
    case True
    then show ?thesis
      using Cons by auto
  next
    case False
    let ?idx = "indices_where labels cid"
    obtain c0 s0 where cc: "create_campaign L self (map (\<lambda>i. history ! i) ?idx)
        (map (\<lambda>i. ids ! i) ?idx) = Inr (c0, s0)"
      using Cons.prems(1) False by (auto simp: Let_def split: sum.splits)
    let ?s1 = "s0 \<lparr> attack_to_campaign :=
                       foldl (\<lambda>d a. dict_set d a (campaign_id c0))
                         (attack_to_campaign s0) (map (\<lambda>i. ids ! i) ?idx) \<rparr>"
    obtain cs' where rest: "form_campaigns L history ids labels cids ?s1 = (Inr cs', self')"
      and cs: "cs = c0 # cs'"
      using Cons.prems(1) False cc by (auto simp: Let_def split: sum.splits prod.splits)
    show ?thesis
      using Cons.IH [OF rest] create_campaign_result(4) [OF cc] cs by simp
  qed
qed

lemma detect_campaigns_counter:
  "detect_campaigns L self history m = (Inr cs, self') \<Longrightarrow>
   next_campaign_id self' = next_campaign_id self + length cs"
  using form_campaigns_counter
  by (auto simp: detect_campaigns_def split: sum.splits if_splits)

lemma uniform_run_counter:
  "next_campaign_id (snd (detect_campaigns sample_library self uniform_batch 3))
     = next_campaign_id self + 1"
proof -
  obtain c self' where run:
    "detect_campaigns sample_library self uniform_batch 3 = (Inr [c], self')"
    using uniform_batch_run by blast
  then show ?thesis
    using detect_campaigns_counter [OF run] by simp
qed

theorem campaign_ids_increasing_unique_witness:
  "map fst (campaigns (run_detections sample_library new_detector
       [(uniform_batch, 3), (uniform_batch, 3)])) = [''CAMPAIGN_0001'', ''CAMPAIGN_0002'']
   \<and> map (\<lambda>kv. undecimal (drop 9 (fst kv))) (campaigns (run_detections sample_library
       new_detector [(uniform_batch, 3), (uniform_batch, 3)])) = [1, 2]"
proof -
  let ?d = "run_detections sample_library new_detector [(uniform_batch, 3), (uniform_batch, 3)]"
  have "next_campaign_id ?d = 3"
    by (simp add: uniform_run_counter new_detector_def)
  moreover have "[1..<3] = [1, 2 :: nat]"
    by (simp add: upt_rec [of _ 3] eval_nat_numeral)
  moreover have "campaign_id_of 1 = ''CAMPAIGN_0001''" "campaign_id_of 2 = ''CAMPAIGN_0002''"
    by (simp_all add: campaign_id_of_def format_04d_def decimal.simps eval_nat_numeral)
  ultimately show ?thesis
    using campaign_ids_increasing_unique [of sample_library "[(uniform_batch, 3), (uniform_batch, 3)]"]
    by simp
qed

end
